theory Spec2Isabelle
  imports Complex_Main "HOL-Library.Word" "HOL-Library.Sublist" "HOL-Library.AList"
begin

section \<open>Python string primitives used by the converters\<close>

text \<open>
  Python strings are modelled as \<open>string\<close>; a character is identified with its code
  point through \<open>of_char\<close>. \<open>str.isspace\<close> on code points below 256 holds for
  9..13, 28..32, 133 and 160.
\<close>

definition py_isspace :: "char \<Rightarrow> bool" where
  "py_isspace c =
     (let n = (of_char c :: nat)
      in (9 \<le> n \<and> n \<le> 13) \<or> (28 \<le> n \<and> n \<le> 32) \<or> n = 133 \<or> n = 160)"

text \<open>\<open>s.lstrip(chars)\<close>, \<open>s.rstrip(chars)\<close> and \<open>s.strip(chars)\<close>, the character set given as
  a predicate.\<close>

definition lstrip_chars :: "(char \<Rightarrow> bool) \<Rightarrow> string \<Rightarrow> string" where
  "lstrip_chars P s = dropWhile P s"

definition rstrip_chars :: "(char \<Rightarrow> bool) \<Rightarrow> string \<Rightarrow> string" where
  "rstrip_chars P s = rev (dropWhile P (rev s))"

definition strip_chars :: "(char \<Rightarrow> bool) \<Rightarrow> string \<Rightarrow> string" where
  "strip_chars P s = rstrip_chars P (lstrip_chars P s)"

definition py_strip :: "string \<Rightarrow> string" where
  "py_strip s = strip_chars py_isspace s"

text \<open>\<open>s.replace(old, new)\<close>: every non-overlapping occurrence of \<open>old\<close>, scanning from
  the left. With an empty \<open>old\<close> Python puts \<open>new\<close> before every character and at the end.\<close>

fun replace_from :: "string \<Rightarrow> string \<Rightarrow> string \<Rightarrow> string" where
  "replace_from old new [] = []"
| "replace_from old new (c # cs) =
     (if old \<noteq> [] \<and> prefix old (c # cs)
      then new @ replace_from old new (drop (length old) (c # cs))
      else c # replace_from old new cs)"

definition py_replace :: "string \<Rightarrow> string \<Rightarrow> string \<Rightarrow> string" where
  "py_replace old new s =
     (if old = [] then new @ concat (map (\<lambda>c. c # new) s) else replace_from old new s)"

text \<open>\<open>max(xs, key=f)\<close> on a non-empty sequence \<open>x # xs\<close>: the first element whose key is
  maximal (a later element replaces the current best only when its key is strictly
  greater).\<close>

fun py_max_key :: "('a \<Rightarrow> nat) \<Rightarrow> 'a \<Rightarrow> 'a list \<Rightarrow> 'a" where
  "py_max_key f best [] = best"
| "py_max_key f best (x # xs) = (if f best < f x then py_max_key f x xs else py_max_key f best xs)"

datatype py_error =
    ValueError string
  | AttributeError
  | OtherException string

section \<open>The reader object and its environment\<close>

text \<open>
  \<open>SybaseDatReader\<close> with its four attributes. The table type \<open>'t\<close> is whatever
  \<open>pandas\<close> returns.
\<close>

record 't reader =
  filepath :: string
  encoding :: "string option"
  data :: "'t option"
  detected_format :: "string option"

definition new_reader :: "string \<Rightarrow> string option \<Rightarrow> 't reader" where
  "new_reader path enc =
     \<lparr>filepath = path, encoding = enc, data = None, detected_format = None\<rparr>"

text \<open>
  The file system and the \<open>chardet\<close> classifier, which the source calls and does not
  define. \<open>read_bytes path\<close> is the content read by \<open>open(path, 'rb')\<close>, \<open>read_lines path
  enc\<close> the lines that iterating \<open>open(path, 'r', encoding=enc)\<close> yields (each with its
  line terminator); \<open>None\<close> stands for a raised exception. \<open>chardet_detect\<close> returns the
  entries \<open>encoding\<close> and \<open>confidence\<close> of the classifier's result.
\<close>

record env =
  read_bytes :: "string \<Rightarrow> 8 word list option"
  read_lines :: "string \<Rightarrow> string option \<Rightarrow> string list option"
  chardet_detect :: "8 word list \<Rightarrow> (string option \<times> rat) option"

section \<open>Format sniffer\<close>

text \<open>\<open>SybaseDatReader.detect_encoding\<close>; \<open>detected and confidence > 0.7\<close> needs a label
  that is neither \<open>None\<close> nor empty.\<close>

definition detect_encoding :: "env \<Rightarrow> 't reader \<Rightarrow> nat \<Rightarrow> string" where
  "detect_encoding w r sample_size =
     (case read_bytes w (filepath r) of
        None \<Rightarrow> ''latin-1''
      | Some bytes \<Rightarrow>
          (case chardet_detect w (take sample_size bytes) of
             None \<Rightarrow> ''latin-1''
           | Some (detected, confidence) \<Rightarrow>
               (case detected of
                  None \<Rightarrow> ''latin-1''
                | Some label \<Rightarrow>
                    if label \<noteq> [] \<and> confidence > 7 / 10 then label else ''latin-1'')))"

text \<open>Python's \<open>latin-1\<close> codec: byte \<open>b\<close> is the character with code point \<open>b\<close>.\<close>

definition latin1_decode :: "8 word list \<Rightarrow> string" where
  "latin1_decode bs = map (\<lambda>b. char_of (unat b)) bs"

definition latin1_encode :: "string \<Rightarrow> 8 word list" where
  "latin1_encode s = map (\<lambda>c. of_nat (of_char c)) s"

text \<open>\<open>SybaseDatReader.detect_delimiter\<close>. The dictionary \<open>delimiter_counts\<close> is an
  association list in insertion order, which is the order \<open>max\<close> iterates it in.\<close>

definition delimiters :: "char list" where
  "delimiters = [CHR 0x09, CHR ''|'', CHR '','', CHR '';'', CHR 0x01]"

definition add_count :: "char \<Rightarrow> nat \<Rightarrow> (char \<times> nat) list \<Rightarrow> (char \<times> nat) list" where
  "add_count d k counts = map (\<lambda>(d', n). if d' = d then (d', n + k) else (d', n)) counts"

definition count_line :: "string \<Rightarrow> (char \<times> nat) list \<Rightarrow> (char \<times> nat) list" where
  "count_line line counts = fold (\<lambda>d cs. add_count d (count_list line d) cs) delimiters counts"

definition get_count :: "(char \<times> nat) list \<Rightarrow> char \<Rightarrow> nat" where
  "get_count counts d = (case map_of counts d of None \<Rightarrow> 0 | Some n \<Rightarrow> n)"

definition detect_delimiter :: "env \<Rightarrow> 't reader \<Rightarrow> nat \<Rightarrow> char option" where
  "detect_delimiter w r sample_lines =
     (case read_lines w (filepath r) (encoding r) of
        None \<Rightarrow> None
      | Some lines \<Rightarrow>
          (let delimiter_counts =
                 fold count_line (take sample_lines lines) (map (\<lambda>d. (d, 0)) delimiters);
               best_delimiter =
                 py_max_key (get_count delimiter_counts) (hd delimiters) (tl delimiters)
           in if get_count delimiter_counts best_delimiter > 0
              then Some best_delimiter else None))"

text \<open>\<open>SybaseDatReader._detect_fixed_widths\<close>. A width is \<open>Some n\<close>, the final
  open-ended entry (\<open>None\<close> in the source) is \<open>None\<close>. Positions ascend and \<open>prev\<close> is
  \<open>0\<close> or an earlier position, so \<open>pos - prev\<close> is never negative.\<close>

fun widths_loop :: "nat list \<Rightarrow> nat \<Rightarrow> nat option list \<Rightarrow> nat option list" where
  "widths_loop [] prev widths = widths"
| "widths_loop (pos # ps) prev widths =
     (if pos - prev > 1 then widths_loop ps pos (widths @ [Some (pos - prev)])
      else widths_loop ps prev widths)"

definition shared_space :: "string list \<Rightarrow> nat \<Rightarrow> bool" where
  "shared_space lines pos = list_all (\<lambda>line. pos < length line \<and> line ! pos = CHR '' '') lines"

definition space_positions :: "string list \<Rightarrow> nat list" where
  "space_positions lines =
     filter (shared_space lines) [0 ..< length (py_max_key length (hd lines) (tl lines))]"

definition detect_fixed_widths :: "env \<Rightarrow> 't reader \<Rightarrow> nat \<Rightarrow> nat option list option" where
  "detect_fixed_widths w r sample_lines =
     (case read_lines w (filepath r) (encoding r) of
        None \<Rightarrow> None
      | Some file_lines \<Rightarrow>
          (let lines = map (rstrip_chars (\<lambda>c. c = CHR 0x0A)) (take sample_lines file_lines)
           in if lines = [] then None
              else if space_positions lines \<noteq> []
              then Some (widths_loop (space_positions lines) 0 [] @ [None])
              else None))"

section \<open>Structured reader\<close>

text \<open>The two \<open>pandas\<close> readers the source delegates to; \<open>Inl\<close> is the exception they
  raise.\<close>

record 't pandas_io =
  read_csv :: "string \<Rightarrow> char \<Rightarrow> string option \<Rightarrow> py_error + 't"
  read_fwf :: "string \<Rightarrow> nat option list option \<Rightarrow> string list option \<Rightarrow> string option
                 \<Rightarrow> py_error + 't"

text \<open>\<open>read_delimited\<close> and \<open>read_fixed_width\<close> return their result together with the
  reader as they leave it; both re-raise what the \<open>pandas\<close> reader raised.\<close>

definition read_delimited ::
  "env \<Rightarrow> 't pandas_io \<Rightarrow> 't reader \<Rightarrow> char option \<Rightarrow> (py_error + 't) \<times> 't reader" where
  "read_delimited w pd r delimiter =
     (let delimiter' =
            (case delimiter of
               Some d \<Rightarrow> d
             | None \<Rightarrow> (case detect_delimiter w r 10 of Some d \<Rightarrow> d | None \<Rightarrow> CHR 0x09))
      in case read_csv pd (filepath r) delimiter' (encoding r) of
           Inl e \<Rightarrow> (Inl e, r)
         | Inr t \<Rightarrow> (Inr t, r\<lparr>data := Some t, detected_format := Some ''delimited''\<rparr>))"

definition read_fixed_width ::
  "env \<Rightarrow> 't pandas_io \<Rightarrow> 't reader \<Rightarrow> nat option list option \<Rightarrow> string list option
     \<Rightarrow> (py_error + 't) \<times> 't reader" where
  "read_fixed_width w pd r widths cols =
     (let widths' = (case widths of Some ws \<Rightarrow> Some ws | None \<Rightarrow> detect_fixed_widths w r 100)
      in case read_fwf pd (filepath r) widths' cols (encoding r) of
           Inl e \<Rightarrow> (Inl e, r)
         | Inr t \<Rightarrow> (Inr t, r\<lparr>data := Some t, detected_format := Some ''fixed_width''\<rparr>))"

definition auto_read ::
  "env \<Rightarrow> 't pandas_io \<Rightarrow> 't reader \<Rightarrow> (py_error + 't) \<times> 't reader" where
  "auto_read w pd r =
     (let r1 = (if encoding r = None
                then r\<lparr>encoding := Some (detect_encoding w r 10000)\<rparr> else r)
      in case read_delimited w pd r1 None of
           (Inr t, r2) \<Rightarrow> (Inr t, r2)
         | (Inl e, r2) \<Rightarrow>
             (case read_fixed_width w pd r2 None None of
                (Inr t, r3) \<Rightarrow> (Inr t, r3)
              | (Inl e', r3) \<Rightarrow>
                  (Inl (ValueError ''Could not read file with any known format''), r3)))"

section \<open>Tables\<close>

text \<open>
  A \<open>DataFrame\<close> as the readers produce it: \<open>nrows\<close> is \<open>len(df)\<close>, and a column is
  either of dtype \<open>object\<close>, holding strings and nulls, or of a numeric dtype, holding
  numbers and nulls. \<open>'n\<close> is the type of the numbers.
\<close>

datatype 'n column = ObjCol "string option list" | NumCol "'n option list"

record 'n table =
  nrows :: nat
  columns :: "(string \<times> 'n column) list"

section \<open>Data cleaner\<close>

text \<open>The first loop of \<open>clean_data\<close>: \<open>df[col].str.strip()\<close> on columns of dtype
  \<open>object\<close>.\<close>

definition str_strip :: "'n column \<Rightarrow> 'n column" where
  "str_strip c = (case c of ObjCol vs \<Rightarrow> ObjCol (map (map_option py_strip) vs) | NumCol ns \<Rightarrow> NumCol ns)"

text \<open>\<open>df.replace('', np.nan)\<close>. Where it has replaced a value, \<open>replace\<close> infers the
  dtype of the column again: a column of dtype \<open>object\<close> that is left with nulls only
  comes out as \<open>float64\<close>, here the numeric column of that many nulls; a column in
  which a string remains stays of dtype \<open>object\<close>.\<close>

definition replace_empty :: "'n column \<Rightarrow> 'n column" where
  "replace_empty c =
     (case c of
        ObjCol vs \<Rightarrow>
          (let replaced = map (\<lambda>v. if v = Some [] then None else v) vs
           in if list_ex (\<lambda>v. v = Some []) vs \<and> list_all (\<lambda>v. v = None) replaced
              then NumCol (map (\<lambda>v. None) replaced)
              else ObjCol replaced)
      | NumCol ns \<Rightarrow> NumCol ns)"

text \<open>\<open>pd.to_numeric(series, errors='coerce')\<close>, the parser of one string being \<open>parse\<close>;
  \<open>series.notna().sum()\<close>.\<close>

definition to_numeric :: "(string \<Rightarrow> 'n option) \<Rightarrow> string option list \<Rightarrow> 'n option list" where
  "to_numeric parse vs = map (\<lambda>v. case v of None \<Rightarrow> None | Some s \<Rightarrow> parse s) vs"

definition notna_sum :: "'a option list \<Rightarrow> nat" where
  "notna_sum vs = length (filter (\<lambda>v. v \<noteq> None) vs)"

text \<open>The test \<open>numeric_series.notna().sum() / len(df) > 0.5\<close>. With \<open>len(df) = 0\<close> the
  series is empty and the quotient is not a number, which compares false.\<close>

definition over_half :: "nat \<Rightarrow> nat \<Rightarrow> bool" where
  "over_half k n = (if n = 0 then False else (of_nat k :: rat) / of_nat n > 1 / 2)"

text \<open>The body of the second loop of \<open>clean_data\<close>.\<close>

definition convert_numeric :: "(string \<Rightarrow> 'n option) \<Rightarrow> nat \<Rightarrow> 'n column \<Rightarrow> 'n column" where
  "convert_numeric parse n c =
     (case c of
        NumCol ns \<Rightarrow> NumCol ns
      | ObjCol vs \<Rightarrow>
          (let numeric_series = to_numeric parse vs
           in if over_half (notna_sum numeric_series) n then NumCol numeric_series
              else ObjCol vs))"

text \<open>\<open>clean_data\<close>. Under a column label that occurs twice \<open>df[col]\<close> is a frame, which
  has no \<open>dtype\<close>: the first loop raises. With distinct labels each \<open>df[col] = ...\<close>
  rewrites the one column of that label.\<close>

definition clean_data :: "(string \<Rightarrow> 'n option) \<Rightarrow> 'n table \<Rightarrow> py_error + 'n table" where
  "clean_data parse df =
     (if \<not> distinct (map fst (columns df)) then Inl AttributeError
      else Inr (df\<lparr>columns :=
             map (\<lambda>(name, c). (name, convert_numeric parse (nrows df) (replace_empty (str_strip c))))
               (columns df)\<rparr>))"

text \<open>The column-name loop of \<open>clean_for_excel\<close>: \<open>re.sub(r'[^a-zA-Z0-9_]', '_', s)\<close>,
  \<open>strip('_')\<close>, and \<open>'Column'\<close> for an empty result.\<close>

definition is_word_char :: "char \<Rightarrow> bool" where
  "is_word_char c =
     (let n = (of_char c :: nat)
      in (97 \<le> n \<and> n \<le> 122) \<or> (65 \<le> n \<and> n \<le> 90) \<or> (48 \<le> n \<and> n \<le> 57) \<or> n = 95)"

definition clean_col :: "string \<Rightarrow> string" where
  "clean_col col =
     (let c1 = map (\<lambda>c. if is_word_char c then c else CHR ''_'') col;
          c2 = strip_chars (\<lambda>c. c = CHR ''_'') c1
      in if c2 = [] then ''Column'' else c2)"

text \<open>A full match of \<open>^[A-Za-z0-9_]+$\<close>.\<close>

definition matches_name :: "string \<Rightarrow> bool" where
  "matches_name s = (s \<noteq> [] \<and> list_all is_word_char s)"

text \<open>The value loop of \<open>clean_for_excel\<close> on one cell of an \<open>object\<close> column:
  \<open>astype(str)\<close> writes a null as \<open>'nan'\<close>; null bytes and the control characters
  \<open>\x01-\x1f\<close>, \<open>\x7f-\x9f\<close> are removed; the replaced quote and dash sequences contain
  code points above 255, which no \<open>string\<close> holds; then \<open>strip\<close>, and \<open>'nan'\<close> becomes
  null.\<close>

definition is_control :: "char \<Rightarrow> bool" where
  "is_control c =
     (let n = (of_char c :: nat) in (1 \<le> n \<and> n \<le> 31) \<or> (127 \<le> n \<and> n \<le> 159))"

definition clean_cell :: "string option \<Rightarrow> string option" where
  "clean_cell v =
     (let s0 = (case v of None \<Rightarrow> ''nan'' | Some s \<Rightarrow> s);
          s1 = filter (\<lambda>c. c \<noteq> CHR 0x00) s0;
          s2 = filter (\<lambda>c. \<not> is_control c) s1;
          s3 = py_strip s2
      in if s3 = ''nan'' then None else Some s3)"

definition clean_values :: "'n column \<Rightarrow> 'n column" where
  "clean_values c = (case c of ObjCol vs \<Rightarrow> ObjCol (map clean_cell vs) | NumCol ns \<Rightarrow> NumCol ns)"

text \<open>The value loop over the renamed columns. It stops with \<open>AttributeError\<close> at the
  first label that occurs twice, leaving the columns before it cleaned in place.\<close>

fun clean_cols ::
  "string list \<Rightarrow> (string \<times> 'n column) list \<Rightarrow> py_error option \<times> (string \<times> 'n column) list" where
  "clean_cols names [] = (None, [])"
| "clean_cols names ((name, c) # rest) =
     (if count_list names name > 1 then (Some AttributeError, (name, c) # rest)
      else (case clean_cols names rest of (e, rest') \<Rightarrow> (e, (name, clean_values c) # rest')))"

text \<open>\<open>clean_for_excel\<close> returns the exception, if any, and the frame as it left it (the
  frame is changed in place).\<close>

definition clean_for_excel :: "'n table \<Rightarrow> py_error option \<times> 'n table" where
  "clean_for_excel df =
     (let renamed = map (\<lambda>(name, c). (clean_col name, c)) (columns df)
      in case clean_cols (map fst renamed) renamed of
           (e, cols) \<Rightarrow> (e, df\<lparr>columns := cols\<rparr>))"

section \<open>Spreadsheet exporter\<close>

text \<open>The \<open>pandas\<close> writers: \<open>df.to_excel(path, index=False[, sheet_name=...])\<close>, the same
  through an \<open>xlsxwriter\<close> \<open>ExcelWriter\<close> in constant-memory mode, and
  \<open>df.to_csv(path, index=False[, encoding=...])\<close>. \<open>None\<close> is success, \<open>Some e\<close> the
  exception raised.\<close>

record 'd pandas_out =
  to_excel :: "'d \<Rightarrow> string \<Rightarrow> string option \<Rightarrow> py_error option"
  to_excel_xlsxwriter :: "'d \<Rightarrow> string \<Rightarrow> string \<Rightarrow> py_error option"
  to_csv :: "'d \<Rightarrow> string \<Rightarrow> string option \<Rightarrow> py_error option"

text \<open>What an export left on disk: a spreadsheet at a path with the sheet name passed, or
  a delimited text file at a path in an encoding.\<close>

datatype written = Excel string "string option" | Csv string "string option"

text \<open>\<open>export_to_excel\<close>. The last \<open>to_csv\<close> runs inside the handler: what it raises
  leaves the function.\<close>

definition export_to_excel ::
  "'n table pandas_out \<Rightarrow> 'n table \<Rightarrow> string \<Rightarrow> string \<Rightarrow> py_error + written" where
  "export_to_excel pw df output_path sheet_name =
     (case clean_for_excel df of
        (cleaning_error, df') \<Rightarrow>
          if cleaning_error = None \<and> to_excel pw df' output_path (Some sheet_name) = None
          then Inr (Excel output_path (Some sheet_name))
          else if to_excel pw df' output_path None = None
          then Inr (Excel output_path None)
          else (let csv_path = py_replace ''.xlsx'' ''.csv'' output_path
                in case to_csv pw df' csv_path (Some ''utf-8-sig'') of
                     None \<Rightarrow> Inr (Csv csv_path (Some ''utf-8-sig''))
                   | Some e \<Rightarrow> Inl e))"

text \<open>\<open>os.path.dirname\<close> (POSIX).\<close>

definition dirname :: "string \<Rightarrow> string" where
  "dirname p =
     (let head = rev (dropWhile (\<lambda>c. c \<noteq> CHR ''/'') (rev p))
      in if head \<noteq> [] \<and> \<not> list_all (\<lambda>c. c = CHR ''/'') head
         then rstrip_chars (\<lambda>c. c = CHR ''/'') head else head)"

section \<open>Indexed binary tables\<close>

text \<open>
  A record of \<open>dbfread\<close>: \<open>record.get(field)\<close> is a value, \<open>None\<close>, or an exception. The
  messages collected in \<open>errors\<close> are kept as the data they are formatted from.
\<close>

type_synonym 'v dbf_record = "string \<Rightarrow> py_error + 'v option"

datatype error_entry = FieldError string nat py_error | RecordError nat py_error

text \<open>The field loop of \<open>convert_dbf_properly\<close> for record \<open>i\<close>.\<close>

fun read_fields ::
  "nat \<Rightarrow> 'v dbf_record \<Rightarrow> string list \<Rightarrow> (string \<times> 'v option) list \<Rightarrow> error_entry list
     \<Rightarrow> (string \<times> 'v option) list \<times> error_entry list" where
  "read_fields i record [] record_dict errors = (record_dict, errors)"
| "read_fields i record (field # rest) record_dict errors =
     (case record field of
        Inr value \<Rightarrow> read_fields i record rest (AList.update field value record_dict) errors
      | Inl e \<Rightarrow>
          read_fields i record rest (AList.update field None record_dict)
            (if length errors < 5 then errors @ [FieldError field i e] else errors))"

text \<open>The table of \<open>dbfread\<close> is iterated once; an element \<open>Inl e\<close> of the list stands
  for the iterator raising \<open>e\<close> instead of yielding a record, which ends the loop and
  leaves through the handler of the whole function.

  The record loop of \<open>convert_dbf_properly\<close>, from record number \<open>i\<close>. Nothing in a
  record's outer \<open>try\<close> raises outside the field loop, so every record yielded is
  appended.\<close>

fun read_records ::
  "nat \<Rightarrow> string list \<Rightarrow> (py_error + 'v dbf_record) list \<Rightarrow> (string \<times> 'v option) list list
     \<Rightarrow> error_entry list \<Rightarrow> py_error + (string \<times> 'v option) list list \<times> error_entry list" where
  "read_records i field_names [] records errors = Inr (records, errors)"
| "read_records i field_names (Inl e # table) records errors = Inl e"
| "read_records i field_names (Inr record # table) records errors =
     (case read_fields i record field_names [] errors of
        (record_dict, errors') \<Rightarrow>
          read_records (Suc i) field_names table (records @ [record_dict]) errors')"


text \<open>The save step of \<open>convert_dbf_properly\<close>; an exception of \<open>to_csv\<close> reaches the outer
  handler, which prints it and returns \<open>None\<close>.\<close>

definition convert_dbf_properly_save ::
  "'d pandas_out \<Rightarrow> 'd \<Rightarrow> nat \<Rightarrow> string \<Rightarrow> py_error + written" where
  "convert_dbf_properly_save pw df len_df excel_file =
     (let saved =
            (if len_df > 10000 then to_excel_xlsxwriter pw df excel_file ''Data''
             else to_excel pw df excel_file None)
      in if saved = None
         then Inr (Excel excel_file (if len_df > 10000 then Some ''Data'' else None))
         else (let csv_file = py_replace ''.xlsx'' ''.csv'' excel_file
               in case to_csv pw df csv_file None of
                    None \<Rightarrow> Inr (Csv csv_file None)
                  | Some e \<Rightarrow> Inl e))"

text \<open>The conversions \<open>convert_with_field_mapping\<close> applies to a raw value of type \<open>'v\<close>:
  its truth value, \<open>str\<close>, and \<open>float\<close>, which may raise.\<close>

record ('v, 'f) py_builtins =
  truthy :: "'v \<Rightarrow> bool"
  py_str :: "'v \<Rightarrow> string"
  py_float :: "'v \<Rightarrow> py_error + 'f"
  float_zero :: 'f

datatype ('v, 'f) converted = CNull | CStr string | CFloat 'f | CBool bool | CRaw 'v

text \<open>The body of the field loop of \<open>convert_with_field_mapping\<close>.\<close>

definition convert_field ::
  "('v, 'f) py_builtins \<Rightarrow> string \<Rightarrow> py_error + 'v option \<Rightarrow> ('v, 'f) converted" where
  "convert_field ops field_type got =
     (case got of
        Inl e \<Rightarrow> CNull
      | Inr None \<Rightarrow> CNull
      | Inr (Some value) \<Rightarrow>
          if field_type = ''C''
          then (if truthy ops value then CStr (py_strip (py_str ops value)) else CStr [])
          else if field_type \<in> set [''N'', ''F'']
          then (if truthy ops value
                then (case py_float ops value of Inl e \<Rightarrow> CNull | Inr x \<Rightarrow> CFloat x)
                else CFloat (float_zero ops))
          else if field_type = ''L''
          then (if truthy ops value then CBool (truthy ops value) else CBool False)
          else CRaw value)"

text \<open>\<open>fields_info\<close> holds a field's name and type tag. The field loop of
  \<open>convert_with_field_mapping\<close> for one record.\<close>

definition convert_record ::
  "('v, 'f) py_builtins \<Rightarrow> (string \<times> string) list \<Rightarrow> 'v dbf_record
     \<Rightarrow> (string \<times> ('v, 'f) converted) list" where
  "convert_record ops fields_info record =
     fold (\<lambda>(field_name, field_type) converted_record.
             AList.update field_name (convert_field ops field_type (record field_name))
               converted_record)
       fields_info []"

text \<open>The record loop of \<open>convert_with_field_mapping\<close>.\<close>

fun convert_records ::
  "('v, 'f) py_builtins \<Rightarrow> (string \<times> string) list \<Rightarrow> (py_error + 'v dbf_record) list
     \<Rightarrow> (string \<times> ('v, 'f) converted) list list
     \<Rightarrow> py_error + (string \<times> ('v, 'f) converted) list list" where
  "convert_records ops fields_info [] records = Inr records"
| "convert_records ops fields_info (Inl e # table) records = Inl e"
| "convert_records ops fields_info (Inr record # table) records =
     convert_records ops fields_info table (records @ [convert_record ops fields_info record])"


definition with_encoding :: "env \<Rightarrow> 't reader \<Rightarrow> 't reader" where
  "with_encoding w r =
     (if encoding r = None then r\<lparr>encoding := Some (detect_encoding w r 10000)\<rparr> else r)"

definition example_env :: env where
  "example_env =
     \<lparr>read_bytes = (\<lambda>p. Some [0x41, 0x42]),
      read_lines = (\<lambda>p e. Some [''AA   1'' @ [CHR 0x0A], ''BB   2'' @ [CHR 0x0A]]),
      chardet_detect = (\<lambda>bs. Some (Some ''ascii'', 1))\<rparr>"

definition fwf_only :: "nat pandas_io" where
  "fwf_only =
     \<lparr>read_csv = (\<lambda>p d e. Inl (OtherException ''ParserError'')),
      read_fwf = (\<lambda>p ws cs e. Inr 7)\<rparr>"

definition no_reader :: "nat pandas_io" where
  "no_reader =
     \<lparr>read_csv = (\<lambda>p d e. Inl (OtherException ''ParserError'')),
      read_fwf = (\<lambda>p ws cs e. Inl (OtherException ''TypeError''))\<rparr>"

definition only_dir_writable :: "string \<Rightarrow> 'd pandas_out" where
  "only_dir_writable dir =
     \<lparr>to_excel = (\<lambda>t p s. Some (OtherException ''write failed'')),
      to_excel_xlsxwriter = (\<lambda>t p s. Some (OtherException ''write failed'')),
      to_csv = (\<lambda>t p e. if dirname p = dir then None
                         else Some (OtherException ''No such file or directory''))\<rparr>"

definition sample_table :: "nat table" where
  "sample_table = \<lparr>nrows = 2, columns = [(''Item #'', ObjCol [Some ''bolt'', Some ''nut''])]\<rparr>"

text \<open>The rule of the specification for fixed-width detection, in two steps: the shared
  space positions kept as boundaries (one whose distance to the previous kept boundary,
  or to the start of the line, exceeds 1), and the distances between consecutive kept
  boundaries.\<close>

fun kept_boundaries :: "nat \<Rightarrow> nat list \<Rightarrow> nat list" where
  "kept_boundaries prev [] = []"
| "kept_boundaries prev (pos # ps) =
     (if pos - prev > 1 then pos # kept_boundaries pos ps else kept_boundaries prev ps)"

fun gaps :: "nat \<Rightarrow> nat list \<Rightarrow> nat list" where
  "gaps prev [] = []"
| "gaps prev (b # bs) = (b - prev) # gaps b bs"

text \<open>A file system in which no spreadsheet can be written and \<open>to_csv\<close> succeeds at
  one path only.\<close>

definition csv_only_at :: "string \<Rightarrow> 'd pandas_out" where
  "csv_only_at path =
     \<lparr>to_excel = (\<lambda>t p s. Some (OtherException ''write failed'')),
      to_excel_xlsxwriter = (\<lambda>t p s. Some (OtherException ''write failed'')),
      to_csv = (\<lambda>t p e. if p = path then None
                         else Some (OtherException ''No such file or directory''))\<rparr>"

text \<open>A file that starts with the UTF-16 byte-order mark \<open>FF FE\<close> and has one more
  byte. \<open>chardet\<close> answers on the mark alone, with confidence 1.0.\<close>

definition bom_env :: env where
  "bom_env =
     \<lparr>read_bytes = (\<lambda>p. Some [0xFF, 0xFE, 0x41]),
      read_lines = (\<lambda>p e. None),
      chardet_detect = (\<lambda>bs. Some (Some ''UTF-16'', 1))\<rparr>"

text \<open>A classifier that is not confident enough, and a file that cannot be opened.\<close>

definition unsure_env :: env where
  "unsure_env =
     \<lparr>read_bytes = (\<lambda>p. Some [0xE9, 0x74, 0xE9]),
      read_lines = (\<lambda>p e. None),
      chardet_detect = (\<lambda>bs. Some (Some ''ISO-8859-1'', 7 / 10))\<rparr>"

definition missing_file_env :: env where
  "missing_file_env =
     \<lparr>read_bytes = (\<lambda>p. None),
      read_lines = (\<lambda>p e. None),
      chardet_detect = (\<lambda>bs. Some (Some ''ascii'', 1))\<rparr>"

text \<open>The first step of Python's UTF-16 decoder: the bytes are taken two at a time, and a
  byte left over raises \<open>UnicodeDecodeError\<close> (truncated data), here \<open>None\<close>.\<close>

fun utf16_code_units :: "8 word list \<Rightarrow> (8 word \<times> 8 word) list option" where
  "utf16_code_units [] = Some []"
| "utf16_code_units [b] = None"
| "utf16_code_units (b1 # b2 # bs) = map_option (Cons (b1, b2)) (utf16_code_units bs)"

text \<open>The total of the specification: the occurrences of a candidate in the first
  \<open>sample_lines\<close> lines, summed over these lines.\<close>

definition delimiter_total :: "nat \<Rightarrow> string list \<Rightarrow> char \<Rightarrow> nat" where
  "delimiter_total sample_lines lines d =
     sum_list (map (\<lambda>line. count_list line d) (take sample_lines lines))"

text \<open>A file system that holds one text file with the given lines.\<close>

definition lines_env :: "string list \<Rightarrow> env" where
  "lines_env lines =
     \<lparr>read_bytes = (\<lambda>p. None),
      read_lines = (\<lambda>p e. Some lines),
      chardet_detect = (\<lambda>bs. None)\<rparr>"







text \<open>The values of a text column after the first loop of \<open>clean_data\<close> and the
  replacement of empty strings: trimmed, and null where nothing is left.\<close>

definition trimmed :: "string option list \<Rightarrow> string option list" where
  "trimmed vs = map (\<lambda>v. if v = Some [] then None else v) (map (map_option py_strip) vs)"

text \<open>A column that holds nothing but nulls and strings of white space, with at least one
  such string.\<close>

definition blank :: "string option list \<Rightarrow> bool" where
  "blank vs = (list_ex (\<lambda>v. v \<noteq> None) vs \<and> list_all (\<lambda>v. v = None) (trimmed vs))"

text \<open>A parser for the examples: it reads an unsigned decimal integer and rejects every
  other string.\<close>

definition parse_nat :: "string \<Rightarrow> nat option" where
  "parse_nat s =
     (if s \<noteq> [] \<and> list_all (\<lambda>c. 48 \<le> (of_char c :: nat) \<and> (of_char c :: nat) \<le> 57) s
      then Some (foldl (\<lambda>n c. 10 * n + (of_char c - 48)) 0 s) else None)"

text \<open>A table of four rows: three of the four values of \<open>qty\<close> are numbers, two of the four
  of \<open>half\<close>, the only value of \<open>code\<close> that is not null is a number, and \<open>note\<close> holds
  white space only.\<close>

definition stock_table :: "nat table" where
  "stock_table =
     \<lparr>nrows = 4,
      columns =
        [(''qty'', ObjCol [Some '' 1'', Some ''2 '', Some ''3'', Some ''x'']),
         (''half'', ObjCol [Some ''1'', Some ''2'', Some ''x'', Some ''y'']),
         (''code'', ObjCol [Some ''1'', None, None, None]),
         (''note'', ObjCol [Some [], Some '' '', None, Some []])]\<rparr>"

text \<open>What \<open>clean_data\<close> makes of that table.\<close>

definition stock_table_cleaned :: "nat table" where
  "stock_table_cleaned =
     \<lparr>nrows = 4,
      columns =
        [(''qty'', NumCol [Some 1, Some 2, Some 3, None]),
         (''half'', ObjCol [Some ''1'', Some ''2'', Some ''x'', Some ''y'']),
         (''code'', ObjCol [Some ''1'', None, None, None]),
         (''note'', NumCol [None, None, None, None])]\<rparr>"


text \<open>One value of a text column after trimming and the replacement of the empty
  string.\<close>

definition trim_value :: "string option \<Rightarrow> string option" where
  "trim_value v = (let s = map_option py_strip v in if s = Some [] then None else s)"

section \<open>Properties of the string primitives\<close>

lemma rstrip_chars_prefix: "\<exists>w. s = rstrip_chars P s @ w \<and> list_all P w"
proof -
  have "rev s = takeWhile P (rev s) @ dropWhile P (rev s)" by simp
  then have "s = rev (dropWhile P (rev s)) @ rev (takeWhile P (rev s))"
    by (metis rev_append rev_rev_ident)
  moreover have "list_all P (rev (takeWhile P (rev s)))"
    by (simp add: list_all_iff) (meson set_takeWhileD)
  ultimately show ?thesis unfolding rstrip_chars_def by blast
qed

lemma rstrip_chars_last: "rstrip_chars P s \<noteq> [] \<Longrightarrow> \<not> P (last (rstrip_chars P s))"
  unfolding rstrip_chars_def by (simp add: last_rev hd_dropWhile)

lemma rstrip_chars_hd: "rstrip_chars P s \<noteq> [] \<Longrightarrow> hd (rstrip_chars P s) = hd s"
  using rstrip_chars_prefix [of s P] by (metis hd_append2)

lemma lstrip_chars_hd: "lstrip_chars P s \<noteq> [] \<Longrightarrow> \<not> P (hd (lstrip_chars P s))"
  unfolding lstrip_chars_def by (simp add: hd_dropWhile)

lemma strip_chars_ends:
  assumes "strip_chars P s \<noteq> []"
  shows "\<not> P (hd (strip_chars P s))" and "\<not> P (last (strip_chars P s))"
proof -
  let ?u = "lstrip_chars P s"
  from assms have ne: "rstrip_chars P ?u \<noteq> []" by (simp add: strip_chars_def)
  then have "?u \<noteq> []" by (auto simp: rstrip_chars_def)
  then have "\<not> P (hd ?u)" by (rule lstrip_chars_hd)
  with rstrip_chars_hd [OF ne] show "\<not> P (hd (strip_chars P s))" by (simp add: strip_chars_def)
  from rstrip_chars_last [OF ne] show "\<not> P (last (strip_chars P s))" by (simp add: strip_chars_def)
qed

lemma strip_chars_fixed:
  assumes "s = [] \<or> (\<not> P (hd s) \<and> \<not> P (last s))"
  shows "strip_chars P s = s"
proof (cases "s = []")
  case True
  then show ?thesis by (simp add: strip_chars_def lstrip_chars_def rstrip_chars_def)
next
  case False
  with assms have h: "\<not> P (hd s)" and l: "\<not> P (last s)" by auto
  from False h have a: "dropWhile P s = s" by (cases s) auto
  have b: "dropWhile P (rev s) = rev s"
  proof -
    from False have "hd (rev s) = last s" by (simp add: hd_rev)
    with l have "\<not> P (hd (rev s))" by simp
    moreover from False have "rev s \<noteq> []" by simp
    ultimately show ?thesis by (cases "rev s") simp_all
  qed
  have "strip_chars P s = rev (dropWhile P (rev (dropWhile P s)))"
    by (simp only: strip_chars_def lstrip_chars_def rstrip_chars_def)
  also have "\<dots> = rev (dropWhile P (rev s))" by (simp only: a)
  also have "\<dots> = s" by (simp only: b rev_rev_ident)
  finally show ?thesis .
qed

lemma strip_chars_idem: "strip_chars P (strip_chars P s) = strip_chars P s"
proof (rule strip_chars_fixed)
  show "strip_chars P s = [] \<or>
        (\<not> P (hd (strip_chars P s)) \<and> \<not> P (last (strip_chars P s)))"
  proof (cases "strip_chars P s = []")
    case True
    then show ?thesis by (rule disjI1)
  next
    case False
    from strip_chars_ends [OF False] show ?thesis by (intro disjI2 conjI)
  qed
qed

lemma set_strip_chars: "set (strip_chars P s) \<subseteq> set s"
  unfolding strip_chars_def lstrip_chars_def rstrip_chars_def
  by (auto dest!: set_dropWhileD)

section \<open>Column-name sanitization\<close>

lemma is_word_char_underscore: "is_word_char (CHR ''_'')"
  by (simp add: is_word_char_def)

lemma clean_col_matches: "matches_name (clean_col col)"
proof -
  let ?c1 = "map (\<lambda>c. if is_word_char c then c else CHR ''_'') col"
  let ?c2 = "strip_chars (\<lambda>c. c = CHR ''_'') ?c1"
  have c1: "\<forall>c \<in> set ?c1. is_word_char c"
    using is_word_char_underscore by auto
  have "set ?c2 \<subseteq> set ?c1" by (rule set_strip_chars)
  with c1 have c2: "list_all is_word_char ?c2"
    unfolding list_all_iff by blast
  have column: "matches_name ''Column''"
    unfolding matches_name_def is_word_char_def by simp
  show ?thesis
  proof (cases "?c2 = []")
    case True
    then have "clean_col col = ''Column''" unfolding clean_col_def Let_def by simp
    with column show ?thesis by simp
  next
    case False
    then have "clean_col col = ?c2" unfolding clean_col_def Let_def by simp
    moreover from False c2 have "matches_name ?c2" unfolding matches_name_def by simp
    ultimately show ?thesis by simp
  qed
qed

lemma map_word_id: "list_all is_word_char s \<Longrightarrow> map (\<lambda>c. if is_word_char c then c else CHR ''_'') s = s"
  by (induction s) auto

lemma clean_col_idem: "clean_col (clean_col col) = clean_col col"
proof -
  let ?U = "\<lambda>c. c = CHR ''_''"
  let ?c1 = "map (\<lambda>c. if is_word_char c then c else CHR ''_'') col"
  let ?c2 = "strip_chars ?U ?c1"
  have col: "clean_col ''Column'' = ''Column''"
    by (simp add: clean_col_def is_word_char_def strip_chars_def lstrip_chars_def rstrip_chars_def)
  show ?thesis
  proof (cases "?c2 = []")
    case True
    then have "clean_col col = ''Column''" by (simp add: clean_col_def)
    with col show ?thesis by simp
  next
    case False
    then have eq: "clean_col col = ?c2" by (simp add: clean_col_def)
    have "matches_name ?c2" using clean_col_matches [of col] eq by simp
    then have m: "map (\<lambda>c. if is_word_char c then c else CHR ''_'') ?c2 = ?c2"
      by (simp add: matches_name_def map_word_id)
    have "strip_chars ?U ?c2 = ?c2" by (rule strip_chars_idem)
    with m False have "clean_col ?c2 = ?c2" by (simp add: clean_col_def)
    with eq show ?thesis by simp
  qed
qed

text \<open>
  Claim C6. The rewriting of a column name in \<open>clean_for_excel\<close> is a total function whose
  result always matches \<open>^[A-Za-z0-9_]+$\<close> (the name \<open>Column\<close> included), rewriting a
  rewritten name changes nothing, and \<open>Item #\<close> is rewritten to \<open>Item\<close>.
\<close>

theorem clean_col_total_idempotent:
  "(matches_name (clean_col col) \<or> clean_col col = ''Column'')
   \<and> clean_col (clean_col col) = clean_col col
   \<and> clean_col ''Item #'' = ''Item''"
proof (intro conjI)
  show "matches_name (clean_col col) \<or> clean_col col = ''Column''"
    using clean_col_matches [of col] by (rule disjI1)
  show "clean_col (clean_col col) = clean_col col"
    by (rule clean_col_idem)
  show "clean_col ''Item #'' = ''Item''"
    by (simp add: clean_col_def is_word_char_def strip_chars_def lstrip_chars_def
        rstrip_chars_def)
qed

section \<open>Reading: the fallback order of \<open>auto_read\<close>\<close>

lemma read_delimited_cases:
  "(\<exists>e. read_delimited w pd r d = (Inl e, r)) \<or>
   (\<exists>t. read_delimited w pd r d = (Inr t, r\<lparr>data := Some t, detected_format := Some ''delimited''\<rparr>))"
  unfolding read_delimited_def Let_def
  by (cases "read_csv pd (filepath r)
        (case d of Some d \<Rightarrow> d
         | None \<Rightarrow> (case detect_delimiter w r 10 of Some d \<Rightarrow> d | None \<Rightarrow> CHR 0x09))
        (encoding r)") simp_all

lemma read_fixed_width_cases:
  "(\<exists>e. read_fixed_width w pd r ws cs = (Inl e, r)) \<or>
   (\<exists>t. read_fixed_width w pd r ws cs =
      (Inr t, r\<lparr>data := Some t, detected_format := Some ''fixed_width''\<rparr>))"
  unfolding read_fixed_width_def Let_def
  by (cases "read_fwf pd (filepath r)
        (case ws of Some ws \<Rightarrow> Some ws | None \<Rightarrow> detect_fixed_widths w r 100) cs (encoding r)")
     simp_all

lemma auto_read_delimited_ok:
  assumes "fst (read_delimited w pd (with_encoding w r) None) = Inr t"
  shows "fst (auto_read w pd r) = Inr t"
proof -
  obtain x r2 where eq: "read_delimited w pd (with_encoding w r) None = (x, r2)"
    by (cases "read_delimited w pd (with_encoding w r) None")
  with assms have "x = Inr t" by simp
  with eq show ?thesis
    unfolding auto_read_def with_encoding_def Let_def by simp
qed

lemma auto_read_delimited_fails:
  assumes "fst (read_delimited w pd (with_encoding w r) None) = Inl e"
  shows "fst (auto_read w pd r) =
         (case fst (read_fixed_width w pd (with_encoding w r) None None) of
            Inr t \<Rightarrow> Inr t
          | Inl e' \<Rightarrow> Inl (ValueError ''Could not read file with any known format''))"
proof -
  from read_delimited_cases [of w pd "with_encoding w r" None] assms
  have eq: "read_delimited w pd (with_encoding w r) None = (Inl e, with_encoding w r)"
    by auto
  obtain y r3 where fw: "read_fixed_width w pd (with_encoding w r) None None = (y, r3)"
    by (cases "read_fixed_width w pd (with_encoding w r) None None")
  from eq fw show ?thesis
    unfolding auto_read_def with_encoding_def Let_def by (cases y) simp_all
qed

text \<open>
  Claim C5. \<open>auto_read\<close> first fixes the encoding (detecting it only when the reader has
  none), returns what \<open>read_delimited\<close> returns when that succeeds, otherwise what
  \<open>read_fixed_width\<close> returns when that succeeds, and raises the \<open>ValueError\<close>
  "Could not read file with any known format" exactly when both fail.
\<close>

theorem auto_read_fallback_order:
  "(\<forall>t. fst (read_delimited w pd (with_encoding w r) None) = Inr t
         \<longrightarrow> fst (auto_read w pd r) = Inr t)
   \<and> (\<forall>e t. fst (read_delimited w pd (with_encoding w r) None) = Inl e
         \<longrightarrow> fst (read_fixed_width w pd (with_encoding w r) None None) = Inr t
         \<longrightarrow> fst (auto_read w pd r) = Inr t)
   \<and> (fst (auto_read w pd r) = Inl (ValueError ''Could not read file with any known format'')
        \<longleftrightarrow> isl (fst (read_delimited w pd (with_encoding w r) None))
            \<and> isl (fst (read_fixed_width w pd (with_encoding w r) None None)))
   \<and> encoding (with_encoding w r) =
        Some (case encoding r of None \<Rightarrow> detect_encoding w r 10000 | Some e \<Rightarrow> e)"
proof (intro conjI allI impI)
  fix t
  assume "fst (read_delimited w pd (with_encoding w r) None) = Inr t"
  then show "fst (auto_read w pd r) = Inr t" by (rule auto_read_delimited_ok)
next
  fix e t
  assume "fst (read_delimited w pd (with_encoding w r) None) = Inl e"
    and "fst (read_fixed_width w pd (with_encoding w r) None None) = Inr t"
  then show "fst (auto_read w pd r) = Inr t"
    using auto_read_delimited_fails [of w pd r e] by simp
next
  show "fst (auto_read w pd r) = Inl (ValueError ''Could not read file with any known format'')
        \<longleftrightarrow> isl (fst (read_delimited w pd (with_encoding w r) None))
            \<and> isl (fst (read_fixed_width w pd (with_encoding w r) None None))"
  proof (cases "fst (read_delimited w pd (with_encoding w r) None)")
    case (Inr t)
    with auto_read_delimited_ok [of w pd r t] show ?thesis by simp
  next
    case (Inl e)
    with auto_read_delimited_fails [of w pd r e] show ?thesis
      by (cases "fst (read_fixed_width w pd (with_encoding w r) None None)") simp_all
  qed
next
  show "encoding (with_encoding w r) =
        Some (case encoding r of None \<Rightarrow> detect_encoding w r 10000 | Some e \<Rightarrow> e)"
    unfolding with_encoding_def by (cases "encoding r") simp_all
qed

lemma fwf_only_delimited:
  "fst (read_delimited example_env fwf_only r None) = Inl (OtherException ''ParserError'')"
  unfolding read_delimited_def fwf_only_def Let_def by simp

lemma fwf_only_fixed: "fst (read_fixed_width example_env fwf_only r None None) = Inr 7"
  unfolding read_fixed_width_def fwf_only_def Let_def by simp

lemma no_reader_delimited:
  "fst (read_delimited example_env no_reader r None) = Inl (OtherException ''ParserError'')"
  unfolding read_delimited_def no_reader_def Let_def by simp

lemma no_reader_fixed:
  "fst (read_fixed_width example_env no_reader r None None) = Inl (OtherException ''TypeError'')"
  unfolding read_fixed_width_def no_reader_def Let_def by simp

theorem auto_read_fallback_order_witness:
  "fst (auto_read example_env fwf_only (new_reader ''items.dat'' None)) = Inr 7
   \<and> fst (auto_read example_env no_reader (new_reader ''items.dat'' None)) =
       Inl (ValueError ''Could not read file with any known format'')"
proof
  show "fst (auto_read example_env fwf_only (new_reader ''items.dat'' None)) = Inr 7"
    using auto_read_fallback_order [of example_env fwf_only "new_reader ''items.dat'' None"]
      fwf_only_delimited fwf_only_fixed by blast
  show "fst (auto_read example_env no_reader (new_reader ''items.dat'' None)) =
       Inl (ValueError ''Could not read file with any known format'')"
    using auto_read_fallback_order [of example_env no_reader "new_reader ''items.dat'' None"]
      no_reader_delimited no_reader_fixed by simp
qed

section \<open>Export: the delimited-text fallback\<close>

lemma replace_from_no_occurrence:
  "\<not> sublist old s \<Longrightarrow> replace_from old new s = s"
proof (induction s)
  case Nil
  then show ?case by simp
next
  case (Cons c cs)
  from Cons.prems have np: "\<not> prefix old (c # cs)"
    using prefix_imp_sublist by blast
  from Cons.prems have "\<not> sublist old cs"
    by (meson sublist_Cons_right)
  with Cons.IH have "replace_from old new cs = cs" by simp
  with np show ?case by simp
qed

lemma py_replace_no_occurrence:
  assumes "\<not> sublist old s"
  shows "py_replace old new s = s"
proof -
  from assms have "old \<noteq> []" by auto
  with assms show ?thesis
    unfolding py_replace_def by (simp add: replace_from_no_occurrence)
qed

lemma export_to_excel_csv_path:
  assumes "export_to_excel pw df output_path sheet_name = Inr (Csv p enc)"
  shows "p = py_replace ''.xlsx'' ''.csv'' output_path \<and> enc = Some ''utf-8-sig''"
proof -
  obtain e df' where c: "clean_for_excel df = (e, df')" by (cases "clean_for_excel df")
  from assms show ?thesis
    unfolding export_to_excel_def c Let_def
    by (simp split: if_splits option.splits)
qed

lemma export_to_excel_fallback:
  assumes "\<And>t s. to_excel pw t output_path s \<noteq> None"
    and "\<And>t. to_csv pw t (py_replace ''.xlsx'' ''.csv'' output_path) (Some ''utf-8-sig'') = csv"
  shows "export_to_excel pw df output_path sheet_name =
         (case csv of None \<Rightarrow> Inr (Csv (py_replace ''.xlsx'' ''.csv'' output_path) (Some ''utf-8-sig''))
          | Some e \<Rightarrow> Inl e)"
proof -
  obtain e df' where c: "clean_for_excel df = (e, df')" by (cases "clean_for_excel df")
  have a: "to_excel pw df' output_path (Some sheet_name) \<noteq> None"
    and b: "to_excel pw df' output_path None \<noteq> None"
    by (rule assms(1))+
  have d: "to_csv pw df' (py_replace ''.xlsx'' ''.csv'' output_path) (Some ''utf-8-sig'') = csv"
    by (rule assms(2))
  show ?thesis
    unfolding export_to_excel_def c Let_def using a b d by (cases csv) simp_all
qed

lemma save_csv_path:
  assumes "convert_dbf_properly_save pw df n excel_file = Inr (Csv p enc)"
  shows "p = py_replace ''.xlsx'' ''.csv'' excel_file \<and> enc = None"
  using assms unfolding convert_dbf_properly_save_def Let_def
  by (simp split: if_splits option.splits)

text \<open>
  Claim C4, at an input where the code does not do what the claim says. The output file is
  \<open>items.xlsx\<close> in the directory \<open>/data/q1.xlsx.d\<close>, the only directory in which
  \<open>to_csv\<close> can write, and both spreadsheet writes fail. The replacement rewrites the
  directory name as well, \<open>to_csv\<close> is sent to \<open>/data/q1.csv.d/items.csv\<close>, and its
  exception leaves \<open>export_to_excel\<close>: no file is written.
\<close>

theorem export_raises_when_directory_name_contains_xlsx:
  "dirname ''/data/q1.xlsx.d/items.xlsx'' = ''/data/q1.xlsx.d''
   \<and> py_replace ''.xlsx'' ''.csv'' ''/data/q1.xlsx.d/items.xlsx'' = ''/data/q1.csv.d/items.csv''
   \<and> export_to_excel (only_dir_writable ''/data/q1.xlsx.d'') df
         ''/data/q1.xlsx.d/items.xlsx'' ''Data'' =
       Inl (OtherException ''No such file or directory'')"
proof (intro conjI)
  show d: "dirname ''/data/q1.xlsx.d/items.xlsx'' = ''/data/q1.xlsx.d''"
    by (simp add: dirname_def rstrip_chars_def)
  show p: "py_replace ''.xlsx'' ''.csv'' ''/data/q1.xlsx.d/items.xlsx'' = ''/data/q1.csv.d/items.csv''"
    by (simp add: py_replace_def)
  have d': "dirname ''/data/q1.csv.d/items.csv'' = ''/data/q1.csv.d''"
    by (simp add: dirname_def rstrip_chars_def)
  show "export_to_excel (only_dir_writable ''/data/q1.xlsx.d'') df
         ''/data/q1.xlsx.d/items.xlsx'' ''Data'' =
       Inl (OtherException ''No such file or directory'')"
    using export_to_excel_fallback [of "only_dir_writable ''/data/q1.xlsx.d''"
        "''/data/q1.xlsx.d/items.xlsx''" "Some (OtherException ''No such file or directory'')"
        df "''Data''"]
    by (simp add: only_dir_writable_def p d')
qed

section \<open>Fixed-width detection\<close>

lemma widths_loop_boundaries:
  "widths_loop ps prev widths = widths @ map Some (gaps prev (kept_boundaries prev ps))"
  by (induction ps arbitrary: prev widths) simp_all

lemma gaps_kept_boundaries: "k \<in> set (gaps prev (kept_boundaries prev ps)) \<Longrightarrow> 1 < k"
  by (induction ps arbitrary: prev) (auto split: if_splits)

lemma sample_space_positions: "space_positions [''AA   1'', ''BB   2''] = [2, 3, 4]"
  by (simp add: space_positions_def shared_space_def upt_rec [of _ 6] upt_rec[of _ "Suc _"])

lemma sample_widths:
  "detect_fixed_widths example_env (new_reader path enc) 100 = Some [Some 2, Some 2, None]"
  by (simp add: detect_fixed_widths_def example_env_def new_reader_def rstrip_chars_def
      sample_space_positions)

lemma detect_fixed_widths_lines:
  assumes "read_lines w (filepath r) (encoding r) = Some file_lines"
  shows "detect_fixed_widths w r n =
         (let lines = map (rstrip_chars (\<lambda>c. c = CHR 0x0A)) (take n file_lines)
          in if lines = [] \<or> space_positions lines = [] then None
             else Some (map Some (gaps 0 (kept_boundaries 0 (space_positions lines))) @ [None]))"
  unfolding detect_fixed_widths_def assms Let_def
  by (simp add: widths_loop_boundaries)

lemma detect_fixed_widths_unreadable:
  "read_lines w (filepath r) (encoding r) = None \<Longrightarrow> detect_fixed_widths w r n = None"
  unfolding detect_fixed_widths_def by simp

lemma detect_fixed_widths_shape:
  assumes "detect_fixed_widths w r n = Some ws"
  shows "\<exists>bs. ws = map Some bs @ [None] \<and> (\<forall>k \<in> set bs. 1 < k)"
proof (cases "read_lines w (filepath r) (encoding r)")
  case None
  with assms show ?thesis by (simp add: detect_fixed_widths_unreadable)
next
  case (Some file_lines)
  let ?lines = "map (rstrip_chars (\<lambda>c. c = CHR 0x0A)) (take n file_lines)"
  let ?bs = "gaps 0 (kept_boundaries 0 (space_positions ?lines))"
  from assms detect_fixed_widths_lines [OF Some, of n]
  have "ws = map Some ?bs @ [None]"
    by (simp add: Let_def split: if_splits)
  moreover have "\<forall>k \<in> set ?bs. 1 < k"
    using gaps_kept_boundaries by blast
  ultimately show ?thesis by blast
qed

lemma sample_lines_read:
  "read_lines example_env (filepath (new_reader ''sample.txt'' None :: unit reader))
     (encoding (new_reader ''sample.txt'' None :: unit reader)) =
   Some [''AA   1'' @ [CHR 0x0A], ''BB   2'' @ [CHR 0x0A]]"
  by (simp add: example_env_def)

lemma sample_lines_stripped:
  "map (rstrip_chars (\<lambda>c. c = CHR 0x0A)) (take 100 [''AA   1'' @ [CHR 0x0A], ''BB   2'' @ [CHR 0x0A]])
   = [''AA   1'', ''BB   2'']"
  by (simp add: rstrip_chars_def)

section \<open>The path of the delimited-text fallback\<close>

lemma replace_from_leftmost:
  assumes "old \<noteq> []" and "\<not> sublist old (a @ butlast old)"
  shows "replace_from old new (a @ old @ b) = a @ new @ replace_from old new b"
  using assms(2)
proof (induction a)
  case Nil
  from assms(1) obtain c cs where o: "old = c # cs" by (cases old) auto
  have "replace_from old new (c # cs @ b) =
        new @ replace_from old new (drop (length old) (c # cs @ b))"
    using assms(1) o by simp
  moreover have "drop (length old) (c # cs @ b) = b" using o by simp
  ultimately show ?case using o by simp
next
  case (Cons x a)
  have np: "\<not> prefix old (x # a @ old @ b)"
  proof
    assume p: "prefix old (x # a @ old @ b)"
    have split: "x # a @ old @ b = (x # a @ butlast old) @ (last old # b)"
      using assms(1) by simp
    have "length old \<le> length (x # a @ butlast old)" by simp
    with p split have "prefix old (x # a @ butlast old)"
      by (metis prefix_length_prefix prefixI)
    then have "sublist old ((x # a) @ butlast old)" by (simp add: prefix_imp_sublist)
    with Cons.prems show False by simp
  qed
  from Cons.prems have "\<not> sublist old (a @ butlast old)"
    by (metis append_Cons sublist_Cons_right)
  with Cons.IH have "replace_from old new (a @ old @ b) = a @ new @ replace_from old new b"
    by simp
  with np show ?case by simp
qed

lemma py_replace_leftmost:
  assumes "\<not> sublist ''.xlsx'' (a @ ''.xls'')"
  shows "py_replace ''.xlsx'' ''.csv'' (a @ ''.xlsx'' @ b) = a @ ''.csv'' @ py_replace ''.xlsx'' ''.csv'' b"
proof -
  have "butlast ''.xlsx'' = ''.xls''" by simp
  with assms have "\<not> sublist ''.xlsx'' (a @ butlast ''.xlsx'')" by simp
  then have "replace_from ''.xlsx'' ''.csv'' (a @ ''.xlsx'' @ b) =
             a @ ''.csv'' @ replace_from ''.xlsx'' ''.csv'' b"
    by (rule replace_from_leftmost [rotated]) simp
  then show ?thesis unfolding py_replace_def by simp
qed

lemma export_to_excel_csv_iff:
  "export_to_excel pw df output_path sheet_name = Inr (Csv p enc) \<longleftrightarrow>
     p = py_replace ''.xlsx'' ''.csv'' output_path \<and> enc = Some ''utf-8-sig''
     \<and> \<not> (fst (clean_for_excel df) = None
            \<and> to_excel pw (snd (clean_for_excel df)) output_path (Some sheet_name) = None)
     \<and> to_excel pw (snd (clean_for_excel df)) output_path None \<noteq> None
     \<and> to_csv pw (snd (clean_for_excel df)) p enc = None"
proof -
  obtain e df' where c: "clean_for_excel df = (e, df')" by (cases "clean_for_excel df")
  show ?thesis
    unfolding export_to_excel_def c Let_def
    by (cases "to_csv pw df' (py_replace ''.xlsx'' ''.csv'' output_path) (Some ''utf-8-sig'')")
       auto
qed

lemma save_csv_iff:
  "convert_dbf_properly_save pw df n excel_file = Inr (Csv p enc) \<longleftrightarrow>
     p = py_replace ''.xlsx'' ''.csv'' excel_file \<and> enc = None
     \<and> (if n > 10000 then to_excel_xlsxwriter pw df excel_file ''Data''
         else to_excel pw df excel_file None) \<noteq> None
     \<and> to_csv pw df p enc = None"
  unfolding convert_dbf_properly_save_def Let_def
  by (cases "to_csv pw df (py_replace ''.xlsx'' ''.csv'' excel_file) None") auto

lemma csv_only_at_export:
  "export_to_excel (csv_only_at q) df output_path sheet_name =
     (if q = py_replace ''.xlsx'' ''.csv'' output_path
      then Inr (Csv (py_replace ''.xlsx'' ''.csv'' output_path) (Some ''utf-8-sig''))
      else Inl (OtherException ''No such file or directory''))"
  using export_to_excel_fallback [of "csv_only_at q" output_path
      "if py_replace ''.xlsx'' ''.csv'' output_path = q then None
       else Some (OtherException ''No such file or directory'')" df sheet_name]
  by (auto simp add: csv_only_at_def)

lemma csv_only_at_save:
  "convert_dbf_properly_save (csv_only_at q) df n excel_file =
     (if q = py_replace ''.xlsx'' ''.csv'' excel_file
      then Inr (Csv (py_replace ''.xlsx'' ''.csv'' excel_file) None)
      else Inl (OtherException ''No such file or directory''))"
  unfolding convert_dbf_properly_save_def Let_def csv_only_at_def by auto

text \<open>
  Claim C10. \<open>export_to_excel\<close> and the save step of \<open>convert_dbf_properly\<close> end with a
  delimited text file exactly when the spreadsheet writes have failed and \<open>to_csv\<close>
  succeeds at the output path with every occurrence of \<open>.xlsx\<close> replaced by \<open>.csv\<close>: that
  path is the one \<open>to_csv\<close> is called with, so in a file system where \<open>to_csv\<close> succeeds
  at one path only, the file is written if that path is the replaced one and the export
  raises otherwise. The replacement rewrites the leftmost occurrence and goes on in the
  rest of the path; a path with no occurrence of \<open>.xlsx\<close> is left as it is, so that the
  text file is then written under the original path and extension.
\<close>

theorem csv_fallback_path:
  "(export_to_excel pw df output_path sheet_name = Inr (Csv p enc) \<longleftrightarrow>
      p = py_replace ''.xlsx'' ''.csv'' output_path \<and> enc = Some ''utf-8-sig''
      \<and> \<not> (fst (clean_for_excel df) = None
             \<and> to_excel pw (snd (clean_for_excel df)) output_path (Some sheet_name) = None)
      \<and> to_excel pw (snd (clean_for_excel df)) output_path None \<noteq> None
      \<and> to_csv pw (snd (clean_for_excel df)) p enc = None)
   \<and> (convert_dbf_properly_save pw' df' n output_path = Inr (Csv p' enc') \<longleftrightarrow>
      p' = py_replace ''.xlsx'' ''.csv'' output_path \<and> enc' = None
      \<and> (if n > 10000 then to_excel_xlsxwriter pw' df' output_path ''Data''
          else to_excel pw' df' output_path None) \<noteq> None
      \<and> to_csv pw' df' p' enc' = None)
   \<and> export_to_excel (csv_only_at q) df output_path sheet_name =
       (if q = py_replace ''.xlsx'' ''.csv'' output_path
        then Inr (Csv (py_replace ''.xlsx'' ''.csv'' output_path) (Some ''utf-8-sig''))
        else Inl (OtherException ''No such file or directory''))
   \<and> convert_dbf_properly_save (csv_only_at q) df' n output_path =
       (if q = py_replace ''.xlsx'' ''.csv'' output_path
        then Inr (Csv (py_replace ''.xlsx'' ''.csv'' output_path) None)
        else Inl (OtherException ''No such file or directory''))
   \<and> (\<not> sublist ''.xlsx'' (a @ ''.xls'')
       \<longrightarrow> py_replace ''.xlsx'' ''.csv'' (a @ ''.xlsx'' @ b) =
             a @ ''.csv'' @ py_replace ''.xlsx'' ''.csv'' b)
   \<and> (\<not> sublist ''.xlsx'' output_path
       \<longrightarrow> py_replace ''.xlsx'' ''.csv'' output_path = output_path)"
proof (intro conjI impI)
  show "export_to_excel pw df output_path sheet_name = Inr (Csv p enc) \<longleftrightarrow>
      p = py_replace ''.xlsx'' ''.csv'' output_path \<and> enc = Some ''utf-8-sig''
      \<and> \<not> (fst (clean_for_excel df) = None
             \<and> to_excel pw (snd (clean_for_excel df)) output_path (Some sheet_name) = None)
      \<and> to_excel pw (snd (clean_for_excel df)) output_path None \<noteq> None
      \<and> to_csv pw (snd (clean_for_excel df)) p enc = None"
    by (rule export_to_excel_csv_iff)
next
  show "convert_dbf_properly_save pw' df' n output_path = Inr (Csv p' enc') \<longleftrightarrow>
      p' = py_replace ''.xlsx'' ''.csv'' output_path \<and> enc' = None
      \<and> (if n > 10000 then to_excel_xlsxwriter pw' df' output_path ''Data''
          else to_excel pw' df' output_path None) \<noteq> None
      \<and> to_csv pw' df' p' enc' = None"
    by (rule save_csv_iff)
next
  show "export_to_excel (csv_only_at q) df output_path sheet_name =
       (if q = py_replace ''.xlsx'' ''.csv'' output_path
        then Inr (Csv (py_replace ''.xlsx'' ''.csv'' output_path) (Some ''utf-8-sig''))
        else Inl (OtherException ''No such file or directory''))"
    by (rule csv_only_at_export)
next
  show "convert_dbf_properly_save (csv_only_at q) df' n output_path =
       (if q = py_replace ''.xlsx'' ''.csv'' output_path
        then Inr (Csv (py_replace ''.xlsx'' ''.csv'' output_path) None)
        else Inl (OtherException ''No such file or directory''))"
    by (rule csv_only_at_save)
next
  assume "\<not> sublist ''.xlsx'' (a @ ''.xls'')"
  then show "py_replace ''.xlsx'' ''.csv'' (a @ ''.xlsx'' @ b) =
             a @ ''.csv'' @ py_replace ''.xlsx'' ''.csv'' b"
    by (rule py_replace_leftmost)
next
  assume "\<not> sublist ''.xlsx'' output_path"
  then show "py_replace ''.xlsx'' ''.csv'' output_path = output_path"
    by (rule py_replace_no_occurrence)
qed

lemma no_xlsx_in_report_xls: "\<not> sublist ''.xlsx'' ''report.xls''"
  by (simp add: sublist_code)

lemma no_xlsx_in_q1_xls: "\<not> sublist ''.xlsx'' (''/out/q1'' @ ''.xls'')"
  by (simp add: sublist_code)

lemma no_xlsx_in_d_items_xls: "\<not> sublist ''.xlsx'' (''.d/items'' @ ''.xls'')"
  by (simp add: sublist_code)

theorem csv_fallback_path_witness:
  "\<not> sublist ''.xlsx'' (''/out/q1'' @ ''.xls'')
   \<and> \<not> sublist ''.xlsx'' (''.d/items'' @ ''.xls'')
   \<and> \<not> sublist ''.xlsx'' ''report.xls''
   \<and> py_replace ''.xlsx'' ''.csv'' ''/out/q1.xlsx.d/items.xlsx'' = ''/out/q1.csv.d/items.csv''
   \<and> export_to_excel (csv_only_at ''/out/q1.csv.d/items.csv'') sample_table
         ''/out/q1.xlsx.d/items.xlsx'' ''Data'' =
       Inr (Csv ''/out/q1.csv.d/items.csv'' (Some ''utf-8-sig''))
   \<and> export_to_excel (csv_only_at ''/out/q1.xlsx.d/items.csv'') sample_table
         ''/out/q1.xlsx.d/items.xlsx'' ''Data'' =
       Inl (OtherException ''No such file or directory'')
   \<and> export_to_excel (csv_only_at ''report.xls'') sample_table ''report.xls'' ''Data'' =
       Inr (Csv ''report.xls'' (Some ''utf-8-sig''))"
proof -
  note t1 = csv_fallback_path [where a = "''/out/q1''" and b = "''.d/items.xlsx''"
      and pw = "csv_only_at ''/out/q1.csv.d/items.csv''" and df = sample_table
      and output_path = "''/out/q1.xlsx.d/items.xlsx''" and sheet_name = "''Data''"
      and p = "''/out/q1.csv.d/items.csv''" and enc = "Some ''utf-8-sig''"
      and pw' = "csv_only_at ''/out/q1.csv.d/items.csv''" and df' = sample_table and n = 2
      and p' = "''/out/q1.csv.d/items.csv''" and enc' = None
      and q = "''/out/q1.csv.d/items.csv''"]
  note t2 = csv_fallback_path [where a = "''.d/items''" and b = "[]"
      and pw = "csv_only_at ''/out/q1.xlsx.d/items.csv''" and df = sample_table
      and output_path = "''/out/q1.xlsx.d/items.xlsx''" and sheet_name = "''Data''"
      and p = "''/out/q1.csv.d/items.csv''" and enc = "Some ''utf-8-sig''"
      and pw' = "csv_only_at ''/out/q1.csv.d/items.csv''" and df' = sample_table and n = 2
      and p' = "''/out/q1.csv.d/items.csv''" and enc' = None
      and q = "''/out/q1.xlsx.d/items.csv''"]
  note t3 = csv_fallback_path [where a = "[]" and b = "[]"
      and pw = "csv_only_at ''report.xls''" and df = sample_table
      and output_path = "''report.xls''" and sheet_name = "''Data''"
      and p = "''report.xls''" and enc = "Some ''utf-8-sig''"
      and pw' = "csv_only_at ''report.xls''" and df' = sample_table and n = 2
      and p' = "''report.xls''" and enc' = None
      and q = "''report.xls''"]
  from t1 have "\<not> sublist ''.xlsx'' (''/out/q1'' @ ''.xls'')
       \<longrightarrow> py_replace ''.xlsx'' ''.csv'' (''/out/q1'' @ ''.xlsx'' @ ''.d/items.xlsx'') =
             ''/out/q1'' @ ''.csv'' @ py_replace ''.xlsx'' ''.csv'' ''.d/items.xlsx''"
    by (elim conjE)
  with no_xlsx_in_q1_xls
  have r1: "py_replace ''.xlsx'' ''.csv'' (''/out/q1'' @ ''.xlsx'' @ ''.d/items.xlsx'') =
             ''/out/q1'' @ ''.csv'' @ py_replace ''.xlsx'' ''.csv'' ''.d/items.xlsx''"
    by (rule rev_mp)
  from t2 have "\<not> sublist ''.xlsx'' (''.d/items'' @ ''.xls'')
       \<longrightarrow> py_replace ''.xlsx'' ''.csv'' (''.d/items'' @ ''.xlsx'' @ []) =
             ''.d/items'' @ ''.csv'' @ py_replace ''.xlsx'' ''.csv'' []"
    by (elim conjE)
  with no_xlsx_in_d_items_xls
  have r2: "py_replace ''.xlsx'' ''.csv'' (''.d/items'' @ ''.xlsx'' @ []) =
             ''.d/items'' @ ''.csv'' @ py_replace ''.xlsx'' ''.csv'' []"
    by (rule rev_mp)
  have r0: "py_replace ''.xlsx'' ''.csv'' [] = []" by (simp add: py_replace_def)
  from r1 r2 r0
  have r: "py_replace ''.xlsx'' ''.csv'' ''/out/q1.xlsx.d/items.xlsx'' = ''/out/q1.csv.d/items.csv''"
    by simp
  from t3 have "\<not> sublist ''.xlsx'' ''report.xls''
       \<longrightarrow> py_replace ''.xlsx'' ''.csv'' ''report.xls'' = ''report.xls''"
    by (elim conjE)
  with no_xlsx_in_report_xls
  have r3: "py_replace ''.xlsx'' ''.csv'' ''report.xls'' = ''report.xls''"
    by (rule rev_mp)
  from t1 have "export_to_excel (csv_only_at ''/out/q1.csv.d/items.csv'') sample_table
         ''/out/q1.xlsx.d/items.xlsx'' ''Data'' =
       (if ''/out/q1.csv.d/items.csv'' = py_replace ''.xlsx'' ''.csv'' ''/out/q1.xlsx.d/items.xlsx''
        then Inr (Csv (py_replace ''.xlsx'' ''.csv'' ''/out/q1.xlsx.d/items.xlsx'')
               (Some ''utf-8-sig''))
        else Inl (OtherException ''No such file or directory''))"
    by (elim conjE)
  then have e1: "export_to_excel (csv_only_at ''/out/q1.csv.d/items.csv'') sample_table
         ''/out/q1.xlsx.d/items.xlsx'' ''Data'' =
       Inr (Csv ''/out/q1.csv.d/items.csv'' (Some ''utf-8-sig''))"
    unfolding r by simp
  from t2 have "export_to_excel (csv_only_at ''/out/q1.xlsx.d/items.csv'') sample_table
         ''/out/q1.xlsx.d/items.xlsx'' ''Data'' =
       (if ''/out/q1.xlsx.d/items.csv'' = py_replace ''.xlsx'' ''.csv'' ''/out/q1.xlsx.d/items.xlsx''
        then Inr (Csv (py_replace ''.xlsx'' ''.csv'' ''/out/q1.xlsx.d/items.xlsx'')
               (Some ''utf-8-sig''))
        else Inl (OtherException ''No such file or directory''))"
    by (elim conjE)
  then have e2: "export_to_excel (csv_only_at ''/out/q1.xlsx.d/items.csv'') sample_table
         ''/out/q1.xlsx.d/items.xlsx'' ''Data'' =
       Inl (OtherException ''No such file or directory'')"
    unfolding r by simp
  from t3 have "export_to_excel (csv_only_at ''report.xls'') sample_table ''report.xls'' ''Data'' =
       (if ''report.xls'' = py_replace ''.xlsx'' ''.csv'' ''report.xls''
        then Inr (Csv (py_replace ''.xlsx'' ''.csv'' ''report.xls'') (Some ''utf-8-sig''))
        else Inl (OtherException ''No such file or directory''))"
    by (elim conjE)
  then have e3: "export_to_excel (csv_only_at ''report.xls'') sample_table ''report.xls'' ''Data'' =
       Inr (Csv ''report.xls'' (Some ''utf-8-sig''))"
    unfolding r3 by simp
  from no_xlsx_in_q1_xls no_xlsx_in_d_items_xls no_xlsx_in_report_xls r e1 e2 e3
  show ?thesis by (intro conjI)
qed

section \<open>Fixed-width detection: the shared space positions\<close>

lemma py_max_key_in: "py_max_key f x xs \<in> set (x # xs)"
  by (induction xs arbitrary: x) auto

lemma py_max_key_ge: "y \<in> set (x # xs) \<Longrightarrow> f y \<le> f (py_max_key f x xs)"
proof (induction xs arbitrary: x y)
  case Nil
  then show ?case by simp
next
  case (Cons z zs)
  show ?case
  proof (cases "f x < f z")
    case True
    have "f z \<le> f (py_max_key f z zs)" by (rule Cons.IH) simp
    with True have "f x \<le> f (py_max_key f z zs)" by simp
    moreover have "y \<in> set (z # zs) \<Longrightarrow> f y \<le> f (py_max_key f z zs)" by (rule Cons.IH)
    ultimately show ?thesis using Cons.prems True by auto
  next
    case False
    have a: "f x \<le> f (py_max_key f x zs)" by (rule Cons.IH) simp
    with False have "f z \<le> f (py_max_key f x zs)" by simp
    moreover have "y \<in> set (x # zs) \<Longrightarrow> f y \<le> f (py_max_key f x zs)" by (rule Cons.IH)
    ultimately show ?thesis using Cons.prems False by auto
  qed
qed

lemma space_positions_set:
  assumes "lines \<noteq> []"
  shows "set (space_positions lines) =
         {pos. \<forall>line \<in> set lines. pos < length line \<and> line ! pos = CHR '' ''}"
proof -
  let ?m = "py_max_key length (hd lines) (tl lines)"
  from assms have hl: "hd lines # tl lines = lines" by simp
  have "?m \<in> set (hd lines # tl lines)" by (rule py_max_key_in)
  with hl have m: "?m \<in> set lines" by simp
  have "set (space_positions lines) = {pos. pos < length ?m \<and> shared_space lines pos}"
    unfolding space_positions_def by auto
  also have "\<dots> = {pos. \<forall>line \<in> set lines. pos < length line \<and> line ! pos = CHR '' ''}"
    using m unfolding shared_space_def list_all_iff by blast
  finally show ?thesis .
qed

lemma space_positions_sorted: "sorted_wrt (<) (space_positions lines)"
  unfolding space_positions_def by (rule sorted_wrt_filter) simp

text \<open>
  Claim C2, as the code has it. On the sample \<open>AA   1\<close>, \<open>BB   2\<close> the result is the
  three widths 2, 2 and the open one. In general the shared space positions are, in
  ascending order, the positions at which every sampled line has a space; one of them is
  kept as a boundary when its distance to the previous kept boundary, or to the start of
  the line, exceeds 1; the result, when there is one, is the list of distances between
  consecutive kept boundaries, each of them greater than 1, followed by one open-ended
  width; and there is no result when the file cannot be read, has no line, or has no
  shared space position.
\<close>

theorem detect_fixed_widths_kept_boundaries:
  "detect_fixed_widths example_env (new_reader path enc) 100 = Some [Some 2, Some 2, None]
   \<and> (\<forall>file_lines. read_lines w (filepath r) (encoding r) = Some file_lines \<longrightarrow>
        detect_fixed_widths w r n =
          (let lines = map (rstrip_chars (\<lambda>c. c = CHR 0x0A)) (take n file_lines)
           in if lines = [] \<or> space_positions lines = [] then None
              else Some (map Some (gaps 0 (kept_boundaries 0 (space_positions lines))) @ [None])))
   \<and> (lines \<noteq> [] \<longrightarrow>
        set (space_positions lines) =
          {pos. \<forall>line \<in> set lines. pos < length line \<and> line ! pos = CHR '' ''}
        \<and> sorted_wrt (<) (space_positions lines))
   \<and> (read_lines w (filepath r) (encoding r) = None \<longrightarrow> detect_fixed_widths w r n = None)
   \<and> (\<forall>ws. detect_fixed_widths w r n = Some ws \<longrightarrow>
        (\<exists>bs. ws = map Some bs @ [None] \<and> (\<forall>k \<in> set bs. 1 < k)))"
proof (intro conjI allI impI)
  show "detect_fixed_widths example_env (new_reader path enc) 100 = Some [Some 2, Some 2, None]"
    by (rule sample_widths)
next
  fix file_lines
  assume "read_lines w (filepath r) (encoding r) = Some file_lines"
  then show "detect_fixed_widths w r n =
          (let lines = map (rstrip_chars (\<lambda>c. c = CHR 0x0A)) (take n file_lines)
           in if lines = [] \<or> space_positions lines = [] then None
              else Some (map Some (gaps 0 (kept_boundaries 0 (space_positions lines))) @ [None]))"
    by (rule detect_fixed_widths_lines)
next
  assume "lines \<noteq> []"
  then show "set (space_positions lines) =
          {pos. \<forall>line \<in> set lines. pos < length line \<and> line ! pos = CHR '' ''}"
    by (rule space_positions_set)
next
  show "sorted_wrt (<) (space_positions lines)" by (rule space_positions_sorted)
next
  assume "read_lines w (filepath r) (encoding r) = None"
  then show "detect_fixed_widths w r n = None" by (rule detect_fixed_widths_unreadable)
next
  fix ws
  assume "detect_fixed_widths w r n = Some ws"
  then show "\<exists>bs. ws = map Some bs @ [None] \<and> (\<forall>k \<in> set bs. 1 < k)"
    by (rule detect_fixed_widths_shape)
qed

theorem detect_fixed_widths_kept_boundaries_witness:
  "read_lines example_env (filepath (new_reader ''sample.txt'' None :: unit reader))
     (encoding (new_reader ''sample.txt'' None :: unit reader)) =
     Some [''AA   1'' @ [CHR 0x0A], ''BB   2'' @ [CHR 0x0A]]
   \<and> detect_fixed_widths example_env (new_reader ''sample.txt'' None :: unit reader) 100 =
       Some (map Some (gaps 0 (kept_boundaries 0 [2, 3, 4])) @ [None])
   \<and> gaps 0 (kept_boundaries 0 [2, 3, 4]) = [2, 2]
   \<and> [''A B 1'', ''AB  2''] \<noteq> []
   \<and> 3 \<in> set (space_positions [''A B 1'', ''AB  2''])
   \<and> 1 \<notin> set (space_positions [''A B 1'', ''AB  2''])
   \<and> 2 \<notin> set (space_positions [''A B 1'', ''AB  2''])"
proof -
  note t = detect_fixed_widths_kept_boundaries [where path = "''sample.txt''" and enc = None
      and w = example_env and r = "new_reader ''sample.txt'' None :: unit reader" and n = 100
      and lines = "[''A B 1'', ''AB  2'']"]
  from t have "\<forall>file_lines. read_lines example_env (filepath (new_reader ''sample.txt'' None :: unit reader))
       (encoding (new_reader ''sample.txt'' None :: unit reader)) = Some file_lines \<longrightarrow>
        detect_fixed_widths example_env (new_reader ''sample.txt'' None :: unit reader) 100 =
          (let lines = map (rstrip_chars (\<lambda>c. c = CHR 0x0A)) (take 100 file_lines)
           in if lines = [] \<or> space_positions lines = [] then None
              else Some (map Some (gaps 0 (kept_boundaries 0 (space_positions lines))) @ [None]))"
    by (elim conjE)
  with sample_lines_read
  have "detect_fixed_widths example_env (new_reader ''sample.txt'' None :: unit reader) 100 =
          (let lines = map (rstrip_chars (\<lambda>c. c = CHR 0x0A))
                 (take 100 [''AA   1'' @ [CHR 0x0A], ''BB   2'' @ [CHR 0x0A]])
           in if lines = [] \<or> space_positions lines = [] then None
              else Some (map Some (gaps 0 (kept_boundaries 0 (space_positions lines))) @ [None]))"
    by blast
  then have a: "detect_fixed_widths example_env (new_reader ''sample.txt'' None :: unit reader) 100 =
       Some (map Some (gaps 0 (kept_boundaries 0 [2, 3, 4])) @ [None])"
    unfolding sample_lines_stripped Let_def sample_space_positions by simp
  have b: "gaps 0 (kept_boundaries 0 [2, 3, 4]) = [2, 2]" by simp
  have ne: "[''A B 1'', ''AB  2''] \<noteq> []" by simp
  from t have "[''A B 1'', ''AB  2''] \<noteq> [] \<longrightarrow>
        set (space_positions [''A B 1'', ''AB  2'']) =
          {pos. \<forall>line \<in> set [''A B 1'', ''AB  2'']. pos < length line \<and> line ! pos = CHR '' ''}
        \<and> sorted_wrt (<) (space_positions [''A B 1'', ''AB  2''])"
    by (elim conjE)
  with ne have s: "set (space_positions [''A B 1'', ''AB  2'']) =
          {pos. \<forall>line \<in> set [''A B 1'', ''AB  2'']. pos < length line \<and> line ! pos = CHR '' ''}"
    by blast
  have c3: "3 \<in> set (space_positions [''A B 1'', ''AB  2''])" unfolding s by simp
  have c1: "1 \<notin> set (space_positions [''A B 1'', ''AB  2''])" unfolding s by simp
  have c2: "2 \<notin> set (space_positions [''A B 1'', ''AB  2''])" unfolding s by simp
  from sample_lines_read a b ne c3 c1 c2 show ?thesis by (intro conjI)
qed

text \<open>
  Claim C2 as the specification states it does not hold: on its sample the code returns
  three widths, with a second boundary at position 4, and not the two widths (a boundary
  at position 2 and one open-ended column) of the claim.
\<close>

theorem detect_fixed_widths_sample_three_widths:
  "detect_fixed_widths example_env (new_reader ''sample.txt'' None :: unit reader) 100
     \<noteq> Some [Some 2, None]
   \<and> detect_fixed_widths example_env (new_reader ''sample.txt'' None :: unit reader) 100
     = Some [Some 2, Some 2, None]"
  by (simp add: sample_widths)

section \<open>Encoding detection\<close>

lemma latin1_byte: "(of_nat (of_char (char_of (unat (b :: 8 word)) :: char)) :: 8 word) = b"
proof -
  have "unat b < 256" using unsigned_less [of b] by simp
  then have "(of_char (char_of (unat b) :: char) :: nat) = unat b" by simp
  then show ?thesis by simp
qed

lemma latin1_round_trip: "latin1_encode (latin1_decode bs) = bs"
  unfolding latin1_encode_def latin1_decode_def
  by (simp only: map_map comp_def latin1_byte map_ident)

lemma latin1_decode_length: "length (latin1_decode bs) = length bs"
  unfolding latin1_decode_def by simp

lemma detect_encoding_label:
  assumes "read_bytes w (filepath r) = Some bs"
    and "chardet_detect w (take n bs) = Some (Some label, confidence)"
  shows "detect_encoding w r n = (if label \<noteq> [] \<and> confidence > 7 / 10 then label else ''latin-1'')"
  using assms unfolding detect_encoding_def by simp

lemma detect_encoding_other:
  assumes "detect_encoding w r n \<noteq> ''latin-1''"
  shows "\<exists>bs confidence. read_bytes w (filepath r) = Some bs
           \<and> chardet_detect w (take n bs) = Some (Some (detect_encoding w r n), confidence)
           \<and> confidence > 7 / 10"
  using assms unfolding detect_encoding_def
  by (auto split: option.splits prod.splits if_splits)

lemma detect_encoding_failure:
  assumes "read_bytes w (filepath r) = None
           \<or> (\<exists>bs. read_bytes w (filepath r) = Some bs
                 \<and> (chardet_detect w (take n bs) = None
                    \<or> (\<exists>c. chardet_detect w (take n bs) = Some (None, c))))"
  shows "detect_encoding w r n = ''latin-1''"
  using assms unfolding detect_encoding_def
  by (auto split: option.splits prod.splits if_splits)

lemma bom_env_detect:
  "detect_encoding bom_env (new_reader ''t.dat'' None :: unit reader) 10000 = ''UTF-16''"
  by (simp add: detect_encoding_def bom_env_def new_reader_def)

lemma unsure_env_detect:
  "detect_encoding unsure_env (new_reader ''t.dat'' None :: unit reader) 10000 = ''latin-1''"
  by (simp add: detect_encoding_def unsure_env_def new_reader_def)

text \<open>
  Claim C8, as the code has it. \<open>detect_encoding\<close> returns the classifier's label exactly
  when the file can be read, the classifier answers with a label that is not empty and
  its confidence is strictly greater than 0.7; the label is not tried on the sample. In
  every other case (no label, a confidence of at most 0.7, an exception while reading or
  classifying) it returns \<open>latin-1\<close>, under which every byte sequence decodes, to as many
  characters as it has bytes, and encodes back to itself. It returns in every case.
\<close>

theorem detect_encoding_label_or_latin1:
  "(\<forall>bs label confidence.
       read_bytes w (filepath r) = Some bs
       \<longrightarrow> chardet_detect w (take n bs) = Some (Some label, confidence)
       \<longrightarrow> detect_encoding w r n =
             (if label \<noteq> [] \<and> confidence > 7 / 10 then label else ''latin-1''))
   \<and> (\<forall>bs confidence.
       read_bytes w (filepath r) = Some bs
       \<longrightarrow> chardet_detect w (take n bs) = None
           \<or> chardet_detect w (take n bs) = Some (None, confidence)
       \<longrightarrow> detect_encoding w r n = ''latin-1'')
   \<and> (read_bytes w (filepath r) = None \<longrightarrow> detect_encoding w r n = ''latin-1'')
   \<and> latin1_encode (latin1_decode sample) = sample
   \<and> length (latin1_decode sample) = length sample"
proof (intro conjI allI impI)
  fix bs label confidence
  assume "read_bytes w (filepath r) = Some bs"
    and "chardet_detect w (take n bs) = Some (Some label, confidence)"
  then show "detect_encoding w r n =
             (if label \<noteq> [] \<and> confidence > 7 / 10 then label else ''latin-1'')"
    by (rule detect_encoding_label)
next
  fix bs confidence
  assume "read_bytes w (filepath r) = Some bs"
    and "chardet_detect w (take n bs) = None
           \<or> chardet_detect w (take n bs) = Some (None, confidence)"
  then have "read_bytes w (filepath r) = None
           \<or> (\<exists>bs. read_bytes w (filepath r) = Some bs
                 \<and> (chardet_detect w (take n bs) = None
                    \<or> (\<exists>c. chardet_detect w (take n bs) = Some (None, c))))"
    by blast
  then show "detect_encoding w r n = ''latin-1''" by (rule detect_encoding_failure)
next
  assume "read_bytes w (filepath r) = None"
  then show "detect_encoding w r n = ''latin-1''"
    unfolding detect_encoding_def by simp
next
  show "latin1_encode (latin1_decode sample) = sample" by (rule latin1_round_trip)
next
  show "length (latin1_decode sample) = length sample" by (rule latin1_decode_length)
qed

theorem detect_encoding_label_or_latin1_witness:
  "detect_encoding example_env (new_reader ''t.dat'' None :: unit reader) 10000 = ''ascii''
   \<and> detect_encoding unsure_env (new_reader ''t.dat'' None :: unit reader) 10000 = ''latin-1''
   \<and> detect_encoding missing_file_env (new_reader ''t.dat'' None :: unit reader) 10000 = ''latin-1''
   \<and> latin1_encode (latin1_decode [0xE9, 0x74, 0xE9]) = [0xE9, 0x74, 0xE9]"
proof -
  note t1 = detect_encoding_label_or_latin1 [where w = example_env
      and r = "new_reader ''t.dat'' None :: unit reader" and n = 10000
      and sample = "[0xE9, 0x74, 0xE9]"]
  note t2 = detect_encoding_label_or_latin1 [where w = unsure_env
      and r = "new_reader ''t.dat'' None :: unit reader" and n = 10000
      and sample = "[0xE9, 0x74, 0xE9]"]
  note t3 = detect_encoding_label_or_latin1 [where w = missing_file_env
      and r = "new_reader ''t.dat'' None :: unit reader" and n = 10000
      and sample = "[0xE9, 0x74, 0xE9]"]
  have b1: "read_bytes example_env (filepath (new_reader ''t.dat'' None :: unit reader)) =
            Some [0x41, 0x42]"
    by (simp add: example_env_def)
  have c1: "chardet_detect example_env (take 10000 [0x41, 0x42]) = Some (Some ''ascii'', 1)"
    by (simp add: example_env_def)
  from t1 have "\<forall>bs label confidence.
       read_bytes example_env (filepath (new_reader ''t.dat'' None :: unit reader)) = Some bs
       \<longrightarrow> chardet_detect example_env (take 10000 bs) = Some (Some label, confidence)
       \<longrightarrow> detect_encoding example_env (new_reader ''t.dat'' None :: unit reader) 10000 =
             (if label \<noteq> [] \<and> confidence > 7 / 10 then label else ''latin-1'')"
    by (elim conjE)
  with b1 c1
  have "detect_encoding example_env (new_reader ''t.dat'' None :: unit reader) 10000 =
             (if ''ascii'' \<noteq> [] \<and> (1 :: rat) > 7 / 10 then ''ascii'' else ''latin-1'')"
    by blast
  then have a1: "detect_encoding example_env (new_reader ''t.dat'' None :: unit reader) 10000 = ''ascii''"
    by simp
  have b2: "read_bytes unsure_env (filepath (new_reader ''t.dat'' None :: unit reader)) =
            Some [0xE9, 0x74, 0xE9]"
    by (simp add: unsure_env_def)
  have c2: "chardet_detect unsure_env (take 10000 [0xE9, 0x74, 0xE9]) =
            Some (Some ''ISO-8859-1'', 7 / 10)"
    by (simp add: unsure_env_def)
  from t2 have "\<forall>bs label confidence.
       read_bytes unsure_env (filepath (new_reader ''t.dat'' None :: unit reader)) = Some bs
       \<longrightarrow> chardet_detect unsure_env (take 10000 bs) = Some (Some label, confidence)
       \<longrightarrow> detect_encoding unsure_env (new_reader ''t.dat'' None :: unit reader) 10000 =
             (if label \<noteq> [] \<and> confidence > 7 / 10 then label else ''latin-1'')"
    by (elim conjE)
  with b2 c2
  have "detect_encoding unsure_env (new_reader ''t.dat'' None :: unit reader) 10000 =
             (if ''ISO-8859-1'' \<noteq> [] \<and> (7 / 10 :: rat) > 7 / 10 then ''ISO-8859-1''
              else ''latin-1'')"
    by blast
  then have a2: "detect_encoding unsure_env (new_reader ''t.dat'' None :: unit reader) 10000 = ''latin-1''"
    by simp
  have b3: "read_bytes missing_file_env (filepath (new_reader ''t.dat'' None :: unit reader)) = None"
    by (simp add: missing_file_env_def)
  from t3 have "read_bytes missing_file_env (filepath (new_reader ''t.dat'' None :: unit reader)) = None
       \<longrightarrow> detect_encoding missing_file_env (new_reader ''t.dat'' None :: unit reader) 10000 = ''latin-1''"
    by (elim conjE)
  with b3 have a3: "detect_encoding missing_file_env (new_reader ''t.dat'' None :: unit reader) 10000 = ''latin-1''"
    by blast
  from t1 have a4: "latin1_encode (latin1_decode [0xE9, 0x74, 0xE9]) = [0xE9, 0x74, 0xE9]"
    by (elim conjE)
  from a1 a2 a3 a4 show ?thesis by (intro conjI)
qed

text \<open>
  Claim C8 as the specification states it does not hold: for a file of the three bytes
  \<open>FF FE 41\<close> the classifier answers \<open>UTF-16\<close> with confidence 1.0 on the byte-order
  mark, and \<open>detect_encoding\<close> returns that label, although the sample, having an odd
  number of bytes, does not decode as UTF-16.
\<close>

theorem detect_encoding_returns_undecodable_label:
  "read_bytes bom_env (filepath (new_reader ''t.dat'' None :: unit reader)) = Some [0xFF, 0xFE, 0x41]
   \<and> chardet_detect bom_env (take 10000 [0xFF, 0xFE, 0x41]) = Some (Some ''UTF-16'', 1)
   \<and> detect_encoding bom_env (new_reader ''t.dat'' None :: unit reader) 10000 = ''UTF-16''
   \<and> utf16_code_units (take 10000 [0xFF, 0xFE, 0x41]) = None"
  by (simp add: bom_env_detect) (simp add: bom_env_def)

section \<open>Delimiter detection\<close>

lemma py_max_key_first:
  "(py_max_key f best xs = best \<and> (\<forall>z \<in> set xs. f z \<le> f best))
   \<or> (\<exists>ys zs. xs = ys @ py_max_key f best xs # zs
          \<and> f best < f (py_max_key f best xs)
          \<and> (\<forall>y \<in> set ys. f y < f (py_max_key f best xs))
          \<and> (\<forall>z \<in> set zs. f z \<le> f (py_max_key f best xs)))"
proof (induction xs arbitrary: best)
  case Nil
  then show ?case by simp
next
  case (Cons x xs)
  show ?case
  proof (cases "f best < f x")
    case True
    then have eq: "py_max_key f best (x # xs) = py_max_key f x xs" by simp
    let ?r = "py_max_key f x xs"
    from Cons.IH [of x] consider
      (same) "?r = x" "\<forall>z \<in> set xs. f z \<le> f x"
      | (later) ys zs where "xs = ys @ ?r # zs" "f x < f ?r"
          "\<forall>y \<in> set ys. f y < f ?r" "\<forall>z \<in> set zs. f z \<le> f ?r"
      by blast
    then show ?thesis
    proof cases
      case same
      have "x # xs = [] @ ?r # xs" using same(1) by simp
      moreover have "f best < f ?r" using True same(1) by simp
      moreover have "\<forall>z \<in> set xs. f z \<le> f ?r" using same by simp
      ultimately have "\<exists>ys zs. x # xs = ys @ ?r # zs \<and> f best < f ?r
          \<and> (\<forall>y \<in> set ys. f y < f ?r) \<and> (\<forall>z \<in> set zs. f z \<le> f ?r)"
        by (intro exI [of _ "[]"] exI [of _ xs]) simp
      then show ?thesis unfolding eq by (rule disjI2)
    next
      case later
      have "x # xs = (x # ys) @ ?r # zs" using later(1) by simp
      moreover have "f best < f ?r" using True later(2) by simp
      moreover have "\<forall>y \<in> set (x # ys). f y < f ?r" using later(2,3) by simp
      ultimately have "\<exists>ys zs. x # xs = ys @ ?r # zs \<and> f best < f ?r
          \<and> (\<forall>y \<in> set ys. f y < f ?r) \<and> (\<forall>z \<in> set zs. f z \<le> f ?r)"
        using later(4) by (intro exI [of _ "x # ys"] exI [of _ zs]) simp
      then show ?thesis unfolding eq by (rule disjI2)
    qed
  next
    case False
    then have eq: "py_max_key f best (x # xs) = py_max_key f best xs" by simp
    let ?r = "py_max_key f best xs"
    from Cons.IH [of best] consider
      (same) "?r = best" "\<forall>z \<in> set xs. f z \<le> f best"
      | (later) ys zs where "xs = ys @ ?r # zs" "f best < f ?r"
          "\<forall>y \<in> set ys. f y < f ?r" "\<forall>z \<in> set zs. f z \<le> f ?r"
      by blast
    then show ?thesis
    proof cases
      case same
      from False same have "?r = best \<and> (\<forall>z \<in> set (x # xs). f z \<le> f best)" by simp
      then show ?thesis unfolding eq by (rule disjI1)
    next
      case later
      have "x # xs = (x # ys) @ ?r # zs" using later(1) by simp
      moreover have "\<forall>y \<in> set (x # ys). f y < f ?r" using False later(2,3) by simp
      ultimately have "\<exists>ys zs. x # xs = ys @ ?r # zs \<and> f best < f ?r
          \<and> (\<forall>y \<in> set ys. f y < f ?r) \<and> (\<forall>z \<in> set zs. f z \<le> f ?r)"
        using later(2,4) by (intro exI [of _ "x # ys"] exI [of _ zs]) simp
      then show ?thesis unfolding eq by (rule disjI2)
    qed
  qed
qed

lemma find_first:
  assumes "P r" and "\<forall>y \<in> set ys. \<not> P y"
  shows "find P (ys @ r # zs) = Some r"
  using assms by (induction ys) simp_all

lemma py_max_key_find:
  "find (\<lambda>y. \<forall>y' \<in> set (x # xs). f y' \<le> f y) (x # xs) = Some (py_max_key f x xs)"
proof -
  let ?r = "py_max_key f x xs"
  let ?P = "\<lambda>y. \<forall>y' \<in> set (x # xs). f y' \<le> f y"
  have P: "?P ?r" using py_max_key_ge [of _ x xs f] by blast
  from py_max_key_first [of f x xs] consider
    (same) "?r = x"
    | (later) ys zs where "xs = ys @ ?r # zs" "\<forall>y \<in> set ys. f y < f ?r" "f x < f ?r"
    by blast
  then show ?thesis
  proof cases
    case same
    with P have "?P x" by simp
    then have "find ?P (x # xs) = Some x" by simp
    with same show ?thesis by simp
  next
    case later
    have "\<forall>y \<in> set (x # ys). \<not> ?P y"
    proof
      fix y assume "y \<in> set (x # ys)"
      with later(2,3) have "f y < f ?r" by auto
      moreover have "?r \<in> set (x # xs)" by (rule py_max_key_in)
      ultimately show "\<not> ?P y" by (meson not_less)
    qed
    with P have f: "find ?P ((x # ys) @ ?r # zs) = Some ?r" by (rule find_first)
    have e: "(x # ys) @ ?r # zs = x # xs" using later(1) by simp
    from f show ?thesis unfolding e .
  qed
qed

lemma py_max_key_cong:
  "(\<And>y. y \<in> set (x # xs) \<Longrightarrow> f y = g y) \<Longrightarrow> py_max_key f x xs = py_max_key g x xs"
proof (induction xs arbitrary: x)
  case Nil
  then show ?case by simp
next
  case (Cons z zs)
  have fx: "f x = g x" and fz: "f z = g z" by (rule Cons.prems, simp)+
  have a: "py_max_key f z zs = py_max_key g z zs"
    by (rule Cons.IH) (rule Cons.prems, auto)
  have b: "py_max_key f x zs = py_max_key g x zs"
    by (rule Cons.IH) (rule Cons.prems, auto)
  show ?case using fx fz a b by simp
qed

lemma count_line_totals:
  "count_line line (map (\<lambda>d. (d, g d)) delimiters) =
   map (\<lambda>d. (d, g d + count_list line d)) delimiters"
  by (simp add: count_line_def delimiters_def add_count_def)

lemma fold_count_line:
  "fold count_line ls (map (\<lambda>d. (d, g d)) delimiters) =
   map (\<lambda>d. (d, g d + sum_list (map (\<lambda>l. count_list l d) ls))) delimiters"
proof (induction ls arbitrary: g)
  case Nil
  then show ?case by simp
next
  case (Cons l ls)
  have "fold count_line (l # ls) (map (\<lambda>d. (d, g d)) delimiters) =
        fold count_line ls (map (\<lambda>d. (d, g d + count_list l d)) delimiters)"
    by (simp add: count_line_totals)
  also have "\<dots> = map (\<lambda>d. (d, (g d + count_list l d) + sum_list (map (\<lambda>l. count_list l d) ls)))
                     delimiters"
    by (rule Cons.IH [of "\<lambda>d. g d + count_list l d"])
  also have "\<dots> = map (\<lambda>d. (d, g d + sum_list (map (\<lambda>l. count_list l d) (l # ls)))) delimiters"
    by (simp add: add.assoc)
  finally show ?case .
qed

lemma delimiter_counts_total:
  "fold count_line (take n lines) (map (\<lambda>d. (d, 0)) delimiters) =
   map (\<lambda>d. (d, delimiter_total n lines d)) delimiters"
  using fold_count_line [of "take n lines" "\<lambda>d. 0"] by (simp add: delimiter_total_def)

lemma get_count_total:
  "d \<in> set delimiters \<Longrightarrow> get_count (map (\<lambda>d. (d, g d)) delimiters) d = g d"
  by (simp add: get_count_def map_of_map_restrict)

lemma get_count_other:
  "d \<notin> set delimiters \<Longrightarrow> get_count (map (\<lambda>d. (d, g d)) delimiters) d = 0"
  by (simp add: get_count_def map_of_map_restrict)

lemma delimiters_hd_tl: "hd delimiters # tl delimiters = delimiters"
  by (simp add: delimiters_def)

lemma best_delimiter_total:
  "py_max_key (get_count (map (\<lambda>d. (d, g d)) delimiters)) (hd delimiters) (tl delimiters) =
   py_max_key g (hd delimiters) (tl delimiters)"
proof (rule py_max_key_cong)
  fix y
  assume "y \<in> set (hd delimiters # tl delimiters)"
  then have "y \<in> set delimiters" unfolding delimiters_hd_tl .
  then show "get_count (map (\<lambda>d. (d, g d)) delimiters) y = g y" by (rule get_count_total)
qed

lemma best_delimiter_in: "py_max_key g (hd delimiters) (tl delimiters) \<in> set delimiters"
  using py_max_key_in [of g "hd delimiters" "tl delimiters"] unfolding delimiters_hd_tl .

lemma detect_delimiter_best:
  assumes "read_lines w (filepath r) (encoding r) = Some lines"
  shows "detect_delimiter w r n =
         (if 0 < delimiter_total n lines
                  (py_max_key (delimiter_total n lines) (hd delimiters) (tl delimiters))
          then Some (py_max_key (delimiter_total n lines) (hd delimiters) (tl delimiters))
          else None)"
proof -
  let ?t = "delimiter_total n lines"
  let ?b = "py_max_key ?t (hd delimiters) (tl delimiters)"
  have "get_count (map (\<lambda>d. (d, ?t d)) delimiters) ?b = ?t ?b"
    using best_delimiter_in by (rule get_count_total)
  then show ?thesis
    unfolding detect_delimiter_def assms Let_def delimiter_counts_total best_delimiter_total
    by simp
qed

lemma detect_delimiter_find:
  assumes "read_lines w (filepath r) (encoding r) = Some lines"
  shows "detect_delimiter w r n =
         (case find (\<lambda>d. \<forall>d' \<in> set delimiters.
                        delimiter_total n lines d' \<le> delimiter_total n lines d) delimiters of
            None \<Rightarrow> None
          | Some d \<Rightarrow> if 0 < delimiter_total n lines d then Some d else None)"
proof -
  let ?t = "delimiter_total n lines"
  have "find (\<lambda>y. \<forall>y' \<in> set (hd delimiters # tl delimiters). ?t y' \<le> ?t y)
          (hd delimiters # tl delimiters) =
        Some (py_max_key ?t (hd delimiters) (tl delimiters))"
    by (rule py_max_key_find)
  then have "find (\<lambda>y. \<forall>y' \<in> set delimiters. ?t y' \<le> ?t y) delimiters =
        Some (py_max_key ?t (hd delimiters) (tl delimiters))"
    unfolding delimiters_hd_tl .
  then show ?thesis using detect_delimiter_best [OF assms, of n] by simp
qed

lemma detect_delimiter_none:
  assumes "read_lines w (filepath r) (encoding r) = Some lines"
    and "\<forall>d \<in> set delimiters. delimiter_total n lines d = 0"
  shows "detect_delimiter w r n = None"
proof -
  from assms(2) best_delimiter_in
  have "delimiter_total n lines
          (py_max_key (delimiter_total n lines) (hd delimiters) (tl delimiters)) = 0"
    by blast
  then show ?thesis using detect_delimiter_best [OF assms(1), of n] by simp
qed

lemma detect_delimiter_unique_max:
  assumes "read_lines w (filepath r) (encoding r) = Some lines"
    and "d \<in> set delimiters" and "0 < delimiter_total n lines d"
    and "\<forall>d' \<in> set delimiters. d' \<noteq> d \<longrightarrow> delimiter_total n lines d' < delimiter_total n lines d"
  shows "detect_delimiter w r n = Some d"
proof -
  let ?t = "delimiter_total n lines"
  let ?b = "py_max_key ?t (hd delimiters) (tl delimiters)"
  from assms(2) have "d \<in> set (hd delimiters # tl delimiters)" unfolding delimiters_hd_tl .
  then have ge: "?t d \<le> ?t ?b" by (rule py_max_key_ge)
  have "?b = d"
  proof (rule ccontr)
    assume "?b \<noteq> d"
    with assms(4) best_delimiter_in have "?t ?b < ?t d" by blast
    with ge show False by simp
  qed
  with assms(3) show ?thesis using detect_delimiter_best [OF assms(1), of n] by simp
qed

text \<open>
  Claim C3. The candidates are tab, pipe, comma, semicolon and \<open>\x01\<close>, in this order.
  If the file can be read, \<open>detect_delimiter\<close> returns the first candidate, in this
  order, whose total over the first \<open>sample_lines\<close> lines is the largest, provided that
  total is positive, and nothing otherwise: so it returns nothing when all totals are
  zero, and the candidate whose positive total is larger than every other total when
  there is one. If the file cannot be read it returns nothing.
\<close>

theorem detect_delimiter_first_maximum:
  "delimiters = [CHR 0x09, CHR ''|'', CHR '','', CHR '';'', CHR 0x01]
   \<and> delimiter_total n lines d = sum_list (map (\<lambda>line. count_list line d) (take n lines))
   \<and> (read_lines w (filepath r) (encoding r) = Some lines \<longrightarrow>
        detect_delimiter w r n =
          (case find (\<lambda>d. \<forall>d' \<in> set delimiters.
                         delimiter_total n lines d' \<le> delimiter_total n lines d) delimiters of
             None \<Rightarrow> None
           | Some d \<Rightarrow> if 0 < delimiter_total n lines d then Some d else None)
        \<and> ((\<forall>d \<in> set delimiters. delimiter_total n lines d = 0)
             \<longrightarrow> detect_delimiter w r n = None)
        \<and> (d \<in> set delimiters \<longrightarrow> 0 < delimiter_total n lines d
             \<longrightarrow> (\<forall>d' \<in> set delimiters.
                    d' \<noteq> d \<longrightarrow> delimiter_total n lines d' < delimiter_total n lines d)
             \<longrightarrow> detect_delimiter w r n = Some d))
   \<and> (read_lines w (filepath r) (encoding r) = None \<longrightarrow> detect_delimiter w r n = None)"
proof (intro conjI impI)
  show "delimiters = [CHR 0x09, CHR ''|'', CHR '','', CHR '';'', CHR 0x01]"
    by (rule delimiters_def)
next
  show "delimiter_total n lines d = sum_list (map (\<lambda>line. count_list line d) (take n lines))"
    by (rule delimiter_total_def)
next
  assume "read_lines w (filepath r) (encoding r) = Some lines"
  then show "detect_delimiter w r n =
          (case find (\<lambda>d. \<forall>d' \<in> set delimiters.
                         delimiter_total n lines d' \<le> delimiter_total n lines d) delimiters of
             None \<Rightarrow> None
           | Some d \<Rightarrow> if 0 < delimiter_total n lines d then Some d else None)"
    by (rule detect_delimiter_find)
next
  assume "read_lines w (filepath r) (encoding r) = Some lines"
    and "\<forall>d \<in> set delimiters. delimiter_total n lines d = 0"
  then show "detect_delimiter w r n = None" by (rule detect_delimiter_none)
next
  assume "read_lines w (filepath r) (encoding r) = Some lines"
    and "d \<in> set delimiters" and "0 < delimiter_total n lines d"
    and "\<forall>d' \<in> set delimiters.
           d' \<noteq> d \<longrightarrow> delimiter_total n lines d' < delimiter_total n lines d"
  then show "detect_delimiter w r n = Some d" by (rule detect_delimiter_unique_max)
next
  assume "read_lines w (filepath r) (encoding r) = None"
  then show "detect_delimiter w r n = None" unfolding detect_delimiter_def by simp
qed

lemma lines_env_read:
  "read_lines (lines_env ls) (filepath (r :: unit reader)) (encoding r) = Some ls"
  by (simp add: lines_env_def)

lemma tie_totals:
  "find (\<lambda>d. \<forall>d' \<in> set delimiters.
            delimiter_total 10 [[CHR ''a'', CHR '','', CHR ''b'', CHR 0x09, CHR ''c'', CHR 0x0A]] d'
            \<le> delimiter_total 10 [[CHR ''a'', CHR '','', CHR ''b'', CHR 0x09, CHR ''c'', CHR 0x0A]] d)
     delimiters = Some (CHR 0x09)
   \<and> delimiter_total 10 [[CHR ''a'', CHR '','', CHR ''b'', CHR 0x09, CHR ''c'', CHR 0x0A]] (CHR 0x09) = 1
   \<and> delimiter_total 10 [[CHR ''a'', CHR '','', CHR ''b'', CHR 0x09, CHR ''c'', CHR 0x0A]] (CHR '','') = 1"
  by (simp add: delimiters_def delimiter_total_def)

lemma bounded_totals:
  "CHR '','' \<in> set delimiters
   \<and> 0 < delimiter_total 1 [''a,b'', ''|||||''] (CHR '','')
   \<and> (\<forall>d' \<in> set delimiters. d' \<noteq> CHR '',''
         \<longrightarrow> delimiter_total 1 [''a,b'', ''|||||''] d' < delimiter_total 1 [''a,b'', ''|||||''] (CHR '',''))"
  by (simp add: delimiters_def delimiter_total_def)

lemma zero_totals: "\<forall>d \<in> set delimiters. delimiter_total 10 [''abc''] d = 0"
  by (simp add: delimiters_def delimiter_total_def)

theorem detect_delimiter_first_maximum_witness:
  "detect_delimiter
     (lines_env [[CHR ''a'', CHR '','', CHR ''b'', CHR 0x09, CHR ''c'', CHR 0x0A]])
     (new_reader ''t.dat'' None :: unit reader) 10 = Some (CHR 0x09)
   \<and> detect_delimiter (lines_env [''a,b'', ''|||||'']) (new_reader ''t.dat'' None :: unit reader) 1
       = Some (CHR '','')
   \<and> detect_delimiter (lines_env [''abc'']) (new_reader ''t.dat'' None :: unit reader) 10 = None"
proof -
  let ?r = "new_reader ''t.dat'' None :: unit reader"
  let ?l1 = "[[CHR ''a'', CHR '','', CHR ''b'', CHR 0x09, CHR ''c'', CHR 0x0A]]"
  note t1 = detect_delimiter_first_maximum [where w = "lines_env ?l1" and r = ?r and n = 10
      and lines = ?l1 and d = "CHR 0x09"]
  note t2 = detect_delimiter_first_maximum [where w = "lines_env [''a,b'', ''|||||'']"
      and r = ?r and n = 1 and lines = "[''a,b'', ''|||||'']" and d = "CHR '',''"]
  note t3 = detect_delimiter_first_maximum [where w = "lines_env [''abc'']"
      and r = ?r and n = 10 and lines = "[''abc'']" and d = "CHR '',''"]
  from t1 lines_env_read [of ?l1 ?r]
  have "detect_delimiter (lines_env ?l1) ?r 10 =
          (case find (\<lambda>d. \<forall>d' \<in> set delimiters.
                         delimiter_total 10 ?l1 d' \<le> delimiter_total 10 ?l1 d) delimiters of
             None \<Rightarrow> None
           | Some d \<Rightarrow> if 0 < delimiter_total 10 ?l1 d then Some d else None)"
    by blast
  then have a1: "detect_delimiter (lines_env ?l1) ?r 10 = Some (CHR 0x09)"
    using tie_totals by simp
  from t2 lines_env_read [of "[''a,b'', ''|||||'']" ?r]
  have "CHR '','' \<in> set delimiters \<longrightarrow> 0 < delimiter_total 1 [''a,b'', ''|||||''] (CHR '','')
          \<longrightarrow> (\<forall>d' \<in> set delimiters. d' \<noteq> CHR '',''
                 \<longrightarrow> delimiter_total 1 [''a,b'', ''|||||''] d'
                     < delimiter_total 1 [''a,b'', ''|||||''] (CHR '',''))
          \<longrightarrow> detect_delimiter (lines_env [''a,b'', ''|||||'']) ?r 1 = Some (CHR '','')"
    by blast
  with bounded_totals
  have a2: "detect_delimiter (lines_env [''a,b'', ''|||||'']) ?r 1 = Some (CHR '','')"
    by blast
  from t3 lines_env_read [of "[''abc'']" ?r]
  have "(\<forall>d \<in> set delimiters. delimiter_total 10 [''abc''] d = 0)
          \<longrightarrow> detect_delimiter (lines_env [''abc'']) ?r 10 = None"
    by blast
  with zero_totals have a3: "detect_delimiter (lines_env [''abc'']) ?r 10 = None"
    by blast
  from a1 a2 a3 show ?thesis by (intro conjI)
qed

section \<open>Indexed binary tables: field failures\<close>









lemma read_records_iterator_fails:
  "read_records i fns (map Inr recs @ Inl e # rest) records errs = Inl e"
proof (induction recs arbitrary: i records errs)
  case Nil
  then show ?case by simp
next
  case (Cons rcd recs)
  then show ?case by (cases "read_fields i rcd fns [] errs") simp
qed




lemma convert_records_iterator_fails:
  "convert_records ops fields_info (map Inr recs @ Inl e # rest) records = Inl e"
  by (induction recs arbitrary: records) simp_all








section \<open>Numeric coercion in \<open>clean_data\<close>\<close>

lemma over_half_iff: "over_half k n \<longleftrightarrow> n \<noteq> 0 \<and> n < 2 * k"
proof (cases "n = 0")
  case True
  then show ?thesis by (simp add: over_half_def)
next
  case False
  then have pos: "(0 :: rat) < of_nat n" by simp
  have "(1 / 2 < (of_nat k :: rat) / of_nat n) \<longleftrightarrow> (of_nat n :: rat) < 2 * of_nat k"
    using pos by (simp add: field_simps)
  also have "\<dots> \<longleftrightarrow> (of_nat n :: rat) < of_nat (2 * k)" by simp
  also have "\<dots> \<longleftrightarrow> n < 2 * k" by (rule of_nat_less_iff)
  finally show ?thesis using False by (simp add: over_half_def)
qed

lemma to_numeric_nulls:
  "list_all (\<lambda>v. v = None) vs \<Longrightarrow> to_numeric parse vs = map (\<lambda>v. None) vs"
  by (induction vs) (simp_all add: to_numeric_def)

lemma notna_sum_nulls: "list_all (\<lambda>v. v = None) vs \<Longrightarrow> notna_sum vs = 0"
  by (induction vs) (simp_all add: notna_sum_def)

lemma list_ex_empty_iff:
  "list_all (\<lambda>v. v = None) (trimmed vs) \<Longrightarrow>
   list_ex (\<lambda>v. v = Some []) (map (map_option py_strip) vs) \<longleftrightarrow> list_ex (\<lambda>v. v \<noteq> None) vs"
  by (induction vs) (auto simp: trimmed_def split: if_splits)

lemma clean_column_text:
  "convert_numeric parse n (replace_empty (str_strip (ObjCol vs))) =
   (if (n \<noteq> 0 \<and> n < 2 * notna_sum (to_numeric parse (trimmed vs))) \<or> blank vs
    then NumCol (to_numeric parse (trimmed vs)) else ObjCol (trimmed vs))"
proof (cases "list_all (\<lambda>v. v = None) (trimmed vs)")
  case True
  note nulls = this
  have k: "notna_sum (to_numeric parse (trimmed vs)) = 0"
    using to_numeric_nulls [OF nulls, of parse] nulls
    by (simp add: notna_sum_def list_all_iff)
  have half: "\<not> over_half (notna_sum (to_numeric parse (trimmed vs))) n"
    by (simp add: over_half_iff k)
  show ?thesis
  proof (cases "list_ex (\<lambda>v. v \<noteq> None) vs")
    case True
    with nulls have b: "blank vs" by (simp add: blank_def)
    from True list_ex_empty_iff [OF nulls]
    have "list_ex (\<lambda>v. v = Some []) (map (map_option py_strip) vs)" by simp
    with nulls have r: "replace_empty (str_strip (ObjCol vs)) = NumCol (map (\<lambda>v. None) (trimmed vs))"
      by (simp add: replace_empty_def str_strip_def trimmed_def Let_def)
    have "convert_numeric parse n (replace_empty (str_strip (ObjCol vs))) =
               NumCol (map (\<lambda>v. None) (trimmed vs))"
      by (simp only: r convert_numeric_def column.case)
    with b to_numeric_nulls [OF nulls, of parse] show ?thesis by simp
  next
    case False
    with nulls have b: "\<not> blank vs" by (simp add: blank_def)
    from False list_ex_empty_iff [OF nulls]
    have "\<not> list_ex (\<lambda>v. v = Some []) (map (map_option py_strip) vs)" by simp
    then have r: "replace_empty (str_strip (ObjCol vs)) = ObjCol (trimmed vs)"
      by (simp add: replace_empty_def str_strip_def trimmed_def Let_def)
    have "convert_numeric parse n (replace_empty (str_strip (ObjCol vs))) = ObjCol (trimmed vs)"
      using half by (simp only: r convert_numeric_def column.case Let_def if_False)
    with b k show ?thesis by simp
  qed
next
  case False
  then have b: "\<not> blank vs" by (simp add: blank_def)
  from False have r: "replace_empty (str_strip (ObjCol vs)) = ObjCol (trimmed vs)"
    by (simp add: replace_empty_def str_strip_def trimmed_def Let_def)
  have "convert_numeric parse n (replace_empty (str_strip (ObjCol vs))) =
        (if over_half (notna_sum (to_numeric parse (trimmed vs))) n
         then NumCol (to_numeric parse (trimmed vs)) else ObjCol (trimmed vs))"
    by (simp only: r convert_numeric_def column.case Let_def)
  with b show ?thesis by (simp add: over_half_iff)
qed

lemma clean_column_numeric:
  "convert_numeric parse n (replace_empty (str_strip (NumCol ns))) = NumCol ns"
  by (simp add: convert_numeric_def replace_empty_def str_strip_def)

lemma clean_data_Inr:
  "clean_data parse df = Inr df' \<longleftrightarrow>
     distinct (map fst (columns df))
     \<and> df' = df\<lparr>columns :=
             map (\<lambda>(name, c). (name, convert_numeric parse (nrows df) (replace_empty (str_strip c))))
               (columns df)\<rparr>"
  unfolding clean_data_def by auto




lemma clean_data_shape:
  assumes "clean_data parse df = Inr df'"
  shows "nrows df' = nrows df" and "map fst (columns df') = map fst (columns df)"
proof -
  from assms have c: "df' = df\<lparr>columns :=
             map (\<lambda>(name, c). (name, convert_numeric parse (nrows df) (replace_empty (str_strip c))))
               (columns df)\<rparr>"
    by (simp add: clean_data_Inr)
  show "nrows df' = nrows df" unfolding c by simp
  show "map fst (columns df') = map fst (columns df)"
    unfolding c by (simp add: comp_def case_prod_beta)
qed


lemma py_strip_examples:
  "py_strip '' 1'' = ''1''" "py_strip ''2 '' = ''2''" "py_strip ''3'' = ''3''"
  "py_strip ''x'' = ''x''" "py_strip ''1'' = ''1''" "py_strip ''2'' = ''2''"
  "py_strip ''y'' = ''y''" "py_strip [] = []" "py_strip '' '' = []"
  by (simp_all add: py_strip_def strip_chars_def lstrip_chars_def rstrip_chars_def
      py_isspace_def)

lemma parse_nat_examples:
  "parse_nat ''1'' = Some 1" "parse_nat ''2'' = Some 2" "parse_nat ''3'' = Some 3"
  "parse_nat ''x'' = None" "parse_nat ''y'' = None"
  by (simp_all add: parse_nat_def)

lemma stock_table_clean: "clean_data parse_nat stock_table = Inr stock_table_cleaned"
  by (simp add: clean_data_def stock_table_def stock_table_cleaned_def str_strip_def
      replace_empty_def convert_numeric_def to_numeric_def notna_sum_def over_half_def
      py_strip_examples parse_nat_examples)







section \<open>\<open>clean_data\<close> applied twice\<close>

lemma py_strip_idem: "py_strip (py_strip s) = py_strip s"
  unfolding py_strip_def by (rule strip_chars_idem)

lemma trimmed_map: "trimmed vs = map trim_value vs"
  unfolding trimmed_def trim_value_def by (simp add: comp_def Let_def)

lemma trim_value_strip: "map_option py_strip (trim_value v) = trim_value v"
  unfolding trim_value_def by (cases v) (simp_all add: py_strip_idem Let_def)

lemma trim_value_not_empty: "trim_value v \<noteq> Some []"
  unfolding trim_value_def by (cases v) (simp_all add: Let_def)

lemma trimmed_strip: "map (map_option py_strip) (trimmed vs) = trimmed vs"
  unfolding trimmed_map by (induction vs) (simp_all add: trim_value_strip)

lemma trimmed_replace: "map (\<lambda>v. if v = Some [] then None else v) (trimmed vs) = trimmed vs"
  unfolding trimmed_map by (induction vs) (simp_all add: trim_value_not_empty)

lemma trimmed_no_empty: "\<not> list_ex (\<lambda>v. v = Some []) (trimmed vs)"
  unfolding trimmed_map by (induction vs) (simp_all add: trim_value_not_empty)

lemma clean_column_cases:
  "(\<exists>ns. convert_numeric parse n (replace_empty (str_strip c)) = NumCol ns)
   \<or> (\<exists>vs. convert_numeric parse n (replace_empty (str_strip c)) = ObjCol (trimmed vs)
          \<and> \<not> over_half (notna_sum (to_numeric parse (trimmed vs))) n)"
proof (cases c)
  case (NumCol ns)
  have "convert_numeric parse n (replace_empty (str_strip c)) = NumCol ns"
    unfolding NumCol by (rule clean_column_numeric)
  then have "\<exists>ns. convert_numeric parse n (replace_empty (str_strip c)) = NumCol ns"
    by (rule exI)
  then show ?thesis by (rule disjI1)
next
  case (ObjCol vs)
  let ?cond = "(n \<noteq> 0 \<and> n < 2 * notna_sum (to_numeric parse (trimmed vs))) \<or> blank vs"
  have eq: "convert_numeric parse n (replace_empty (str_strip c)) =
            (if ?cond then NumCol (to_numeric parse (trimmed vs)) else ObjCol (trimmed vs))"
    unfolding ObjCol by (rule clean_column_text)
  show ?thesis
  proof (cases ?cond)
    case True
    have "(if ?cond then NumCol (to_numeric parse (trimmed vs)) else ObjCol (trimmed vs)) =
          NumCol (to_numeric parse (trimmed vs))"
      using True by (rule if_P)
    with eq have "convert_numeric parse n (replace_empty (str_strip c)) =
                  NumCol (to_numeric parse (trimmed vs))"
      by (rule trans)
    then have "\<exists>ns. convert_numeric parse n (replace_empty (str_strip c)) = NumCol ns"
      by (rule exI)
    then show ?thesis by (rule disjI1)
  next
    case False
    have "(if ?cond then NumCol (to_numeric parse (trimmed vs)) else ObjCol (trimmed vs)) =
          ObjCol (trimmed vs)"
      using False by (rule if_not_P)
    with eq have a: "convert_numeric parse n (replace_empty (str_strip c)) = ObjCol (trimmed vs)"
      by (rule trans)
    from False have "\<not> (n \<noteq> 0 \<and> n < 2 * notna_sum (to_numeric parse (trimmed vs)))"
      by (rule contrapos_nn) (rule disjI1)
    then have b: "\<not> over_half (notna_sum (to_numeric parse (trimmed vs))) n"
      unfolding over_half_iff .
    from a b have "convert_numeric parse n (replace_empty (str_strip c)) = ObjCol (trimmed vs)
          \<and> \<not> over_half (notna_sum (to_numeric parse (trimmed vs))) n"
      by (rule conjI)
    then have "\<exists>vs. convert_numeric parse n (replace_empty (str_strip c)) = ObjCol (trimmed vs)
          \<and> \<not> over_half (notna_sum (to_numeric parse (trimmed vs))) n"
      by (rule exI)
    then show ?thesis by (rule disjI2)
  qed
qed

lemma numeric_column_fixed:
  "str_strip (NumCol ns) = NumCol ns" "replace_empty (NumCol ns) = NumCol ns"
  "convert_numeric parse n (NumCol ns) = NumCol ns"
  by (simp_all add: str_strip_def replace_empty_def convert_numeric_def)

lemma trimmed_column_fixed:
  "str_strip (ObjCol (trimmed vs)) = ObjCol (trimmed vs)"
  "replace_empty (ObjCol (trimmed vs)) = ObjCol (trimmed vs)"
proof -
  show "str_strip (ObjCol (trimmed vs)) = ObjCol (trimmed vs)"
    unfolding str_strip_def by (simp add: trimmed_strip)
  show "replace_empty (ObjCol (trimmed vs)) = ObjCol (trimmed vs)"
    unfolding replace_empty_def by (simp add: trimmed_no_empty trimmed_replace Let_def)
qed

lemma trimmed_column_not_converted:
  assumes "\<not> over_half (notna_sum (to_numeric parse (trimmed vs))) n"
  shows "convert_numeric parse n (ObjCol (trimmed vs)) = ObjCol (trimmed vs)"
  unfolding convert_numeric_def using assms by (simp add: Let_def)

lemma cleaned_column_fixed:
  "str_strip (convert_numeric parse n (replace_empty (str_strip c))) =
     convert_numeric parse n (replace_empty (str_strip c))
   \<and> replace_empty (convert_numeric parse n (replace_empty (str_strip c))) =
     convert_numeric parse n (replace_empty (str_strip c))
   \<and> convert_numeric parse n (convert_numeric parse n (replace_empty (str_strip c))) =
     convert_numeric parse n (replace_empty (str_strip c))"
proof -
  let ?r = "convert_numeric parse n (replace_empty (str_strip c))"
  from clean_column_cases [of parse n c] show ?thesis
  proof (elim disjE exE conjE)
    fix ns
    assume r: "?r = NumCol ns"
    show ?thesis unfolding r by (intro conjI numeric_column_fixed)
  next
    fix vs
    assume r: "?r = ObjCol (trimmed vs)"
      and h: "\<not> over_half (notna_sum (to_numeric parse (trimmed vs))) n"
    show ?thesis unfolding r
      by (intro conjI trimmed_column_fixed trimmed_column_not_converted [OF h])
  qed
qed

lemma clean_column_idem:
  "convert_numeric parse n (replace_empty (str_strip
     (convert_numeric parse n (replace_empty (str_strip c))))) =
   convert_numeric parse n (replace_empty (str_strip c))"
proof -
  let ?r = "convert_numeric parse n (replace_empty (str_strip c))"
  note f = cleaned_column_fixed [of parse n c]
  note a = f [THEN conjunct1] and b = f [THEN conjunct2, THEN conjunct1]
    and c = f [THEN conjunct2, THEN conjunct2]
  have "convert_numeric parse n (replace_empty (str_strip ?r)) =
        convert_numeric parse n (replace_empty ?r)"
    by (simp only: a)
  also have "\<dots> = convert_numeric parse n ?r" by (simp only: b)
  also have "\<dots> = ?r" by (rule c)
  finally show ?thesis .
qed

lemma clean_columns_idem:
  "map (\<lambda>(name, c). (name, convert_numeric parse n (replace_empty (str_strip c))))
     (map (\<lambda>(name, c). (name, convert_numeric parse n (replace_empty (str_strip c)))) cols) =
   map (\<lambda>(name, c). (name, convert_numeric parse n (replace_empty (str_strip c)))) cols"
proof -
  have ch: "(\<lambda>(name, c). (name, convert_numeric parse n (replace_empty (str_strip c))))
          \<circ> (\<lambda>(name, c). (name, convert_numeric parse n (replace_empty (str_strip c)))) =
        (\<lambda>(name, c). (name, convert_numeric parse n (replace_empty (str_strip c))))"
  proof (rule ext)
    fix x
    show "((\<lambda>(name, c). (name, convert_numeric parse n (replace_empty (str_strip c))))
          \<circ> (\<lambda>(name, c). (name, convert_numeric parse n (replace_empty (str_strip c))))) x =
        (\<lambda>(name, c). (name, convert_numeric parse n (replace_empty (str_strip c)))) x"
      by (cases x) (simp only: comp_apply prod.case clean_column_idem)
  qed
  show ?thesis by (simp only: map_map ch)
qed

lemma clean_data_twice:
  assumes "clean_data parse df = Inr df'"
  shows "clean_data parse df' = Inr df'"
proof -
  from assms have de: "distinct (map fst (columns df))
     \<and> df' = df\<lparr>columns :=
              map (\<lambda>(name, c). (name, convert_numeric parse (nrows df) (replace_empty (str_strip c))))
                (columns df)\<rparr>"
    by (rule iffD1 [OF clean_data_Inr])
  note d = de [THEN conjunct1] and e = de [THEN conjunct2]
  have n: "nrows df' = nrows df" and l: "map fst (columns df') = map fst (columns df)"
    using assms by (rule clean_data_shape)+
  have c: "columns df' =
           map (\<lambda>(name, c). (name, convert_numeric parse (nrows df) (replace_empty (str_strip c))))
             (columns df)"
    by (subst e) simp
  have f: "map (\<lambda>(name, c). (name, convert_numeric parse (nrows df) (replace_empty (str_strip c))))
             (columns df') = columns df'"
    unfolding c by (rule clean_columns_idem)
  have d': "distinct (map fst (columns df'))" unfolding l by (rule d)
  have "clean_data parse df' =
        Inr (df'\<lparr>columns :=
               map (\<lambda>(name, c). (name, convert_numeric parse (nrows df') (replace_empty (str_strip c))))
                 (columns df')\<rparr>)"
    unfolding clean_data_def using d' by simp
  also have "\<dots> = Inr (df'\<lparr>columns := columns df'\<rparr>)" unfolding n f ..
  also have "\<dots> = Inr df'" by simp
  finally show ?thesis .
qed

lemma cleaned_columns_fixed:
  assumes "clean_data parse df = Inr df'" and "(name, c) \<in> set (columns df')"
  shows "str_strip c = c \<and> replace_empty c = c \<and> convert_numeric parse (nrows df') c = c"
proof -
  from assms(1) have de: "distinct (map fst (columns df))
     \<and> df' = df\<lparr>columns :=
              map (\<lambda>(name, c). (name, convert_numeric parse (nrows df) (replace_empty (str_strip c))))
                (columns df)\<rparr>"
    by (rule iffD1 [OF clean_data_Inr])
  note e = de [THEN conjunct2]
  have n: "nrows df' = nrows df" using assms(1) by (rule clean_data_shape)
  have c: "columns df' =
           map (\<lambda>(name, c). (name, convert_numeric parse (nrows df) (replace_empty (str_strip c))))
             (columns df)"
    by (subst e) simp
  from assms(2) obtain c0 where
    "c = convert_numeric parse (nrows df) (replace_empty (str_strip c0))"
    unfolding c by auto
  then show ?thesis
    unfolding n using cleaned_column_fixed [of parse "nrows df" c0] by simp
qed

text \<open>
  Claim C7. Applying \<open>clean_data\<close> to the table it has returned returns that table
  again, and each of its three steps leaves every column of that table as it is: the
  trimming, the replacement of empty strings, and the numeric conversion. When
  \<open>clean_data\<close> raises there is no table to apply it to again.
\<close>

theorem clean_data_idempotent:
  "(case clean_data parse df of Inl e \<Rightarrow> Inl e | Inr df' \<Rightarrow> clean_data parse df') =
     clean_data parse df
   \<and> (clean_data parse df = Inr df' \<longrightarrow>
        clean_data parse df' = Inr df'
        \<and> (\<forall>name c. (name, c) \<in> set (columns df') \<longrightarrow>
              str_strip c = c \<and> replace_empty c = c
              \<and> convert_numeric parse (nrows df') c = c))"
proof (intro conjI impI allI)
  show "(case clean_data parse df of Inl e \<Rightarrow> Inl e | Inr df' \<Rightarrow> clean_data parse df') =
     clean_data parse df"
  proof (cases "clean_data parse df")
    case (Inl e)
    then show ?thesis by simp
  next
    case (Inr t)
    then have "clean_data parse t = Inr t" by (rule clean_data_twice)
    with Inr show ?thesis by simp
  qed
next
  assume "clean_data parse df = Inr df'"
  then show "clean_data parse df' = Inr df'" by (rule clean_data_twice)
next
  fix name c
  assume a: "clean_data parse df = Inr df'" and b: "(name, c) \<in> set (columns df')"
  note f = cleaned_columns_fixed [OF a b]
  show "str_strip c = c" by (rule f [THEN conjunct1])
  show "replace_empty c = c" by (rule f [THEN conjunct2, THEN conjunct1])
  show "convert_numeric parse (nrows df') c = c" by (rule f [THEN conjunct2, THEN conjunct2])
qed

theorem clean_data_idempotent_witness:
  "clean_data parse_nat stock_table = Inr stock_table_cleaned
   \<and> clean_data parse_nat stock_table_cleaned = Inr stock_table_cleaned
   \<and> (''half'', ObjCol [Some ''1'', Some ''2'', Some ''x'', Some ''y''])
        \<in> set (columns stock_table_cleaned)
   \<and> str_strip (ObjCol [Some ''1'', Some ''2'', Some ''x'', Some ''y'']) =
        (ObjCol [Some ''1'', Some ''2'', Some ''x'', Some ''y''] :: nat column)
   \<and> convert_numeric parse_nat (nrows stock_table_cleaned)
        (ObjCol [Some ''1'', Some ''2'', Some ''x'', Some ''y'']) =
        ObjCol [Some ''1'', Some ''2'', Some ''x'', Some ''y'']"
proof -
  note t = clean_data_idempotent [where parse = parse_nat and df = stock_table
      and df' = stock_table_cleaned]
  from t have "clean_data parse_nat stock_table = Inr stock_table_cleaned \<longrightarrow>
        clean_data parse_nat stock_table_cleaned = Inr stock_table_cleaned
        \<and> (\<forall>name c. (name, c) \<in> set (columns stock_table_cleaned) \<longrightarrow>
              str_strip c = c \<and> replace_empty c = c
              \<and> convert_numeric parse_nat (nrows stock_table_cleaned) c = c)"
    by (elim conjE)
  with stock_table_clean
  have a: "clean_data parse_nat stock_table_cleaned = Inr stock_table_cleaned"
    and b: "\<forall>name c. (name, c) \<in> set (columns stock_table_cleaned) \<longrightarrow>
              str_strip c = c \<and> replace_empty c = c
              \<and> convert_numeric parse_nat (nrows stock_table_cleaned) c = c"
    by blast+
  have m: "(''half'', ObjCol [Some ''1'', Some ''2'', Some ''x'', Some ''y''])
        \<in> set (columns stock_table_cleaned)"
    by (simp add: stock_table_cleaned_def)
  from b m have c: "str_strip (ObjCol [Some ''1'', Some ''2'', Some ''x'', Some ''y'']) =
        (ObjCol [Some ''1'', Some ''2'', Some ''x'', Some ''y''] :: nat column)
      \<and> replace_empty (ObjCol [Some ''1'', Some ''2'', Some ''x'', Some ''y'']) =
        (ObjCol [Some ''1'', Some ''2'', Some ''x'', Some ''y''] :: nat column)
      \<and> convert_numeric parse_nat (nrows stock_table_cleaned)
        (ObjCol [Some ''1'', Some ''2'', Some ''x'', Some ''y'']) =
        ObjCol [Some ''1'', Some ''2'', Some ''x'', Some ''y'']"
    by blast
  from stock_table_clean a m c [THEN conjunct1] c [THEN conjunct2, THEN conjunct2]
  show ?thesis by (intro conjI)
qed

end
